theory Spec2Isabelle
  imports Complex_Main "HOL-Library.Word" "HOL-Library.Product_Lexorder" "HOL-Library.Multiset"
begin

section \<open>Python values, errors and numpy helpers\<close>

text \<open>
  The embedding follows \<^verbatim>\<open>src/arcos4py/tools/_detect_events.py\<close>. Exceptions are
  values of the type \<open>error\<close>; a function that can raise returns \<open>error + 'a\<close> with
  \<open>Inl\<close> for the exception. A coordinate array of shape (n, D) is a list of n points,
  each a list of D reals; all points of one run have the same D (the kd-tree of scipy
  raises otherwise, which is outside the model). Cluster labels and event ids are whole
  numbers that numpy carries as floats; they are \<open>int\<close> here and NaN is \<open>None\<close>.
\<close>

datatype error = ValueError | IndexError | KeyError | TypeError | AttributeError

type_synonym point = "real list"
type_synonym coords = "point list"

datatype pyval =
    PNone
  | PBool bool
  | PInt int
  | PFloat real
  | PStr string
  | PCallable "real list list \<Rightarrow> error + int option list"

text \<open>\<^verbatim>\<open>isinstance(v, int)\<close> holds for Python's bool as well, a subclass of int.\<close>

fun isinstance_int :: "pyval \<Rightarrow> bool" where
  "isinstance_int (PInt i) = True"
| "isinstance_int (PBool b) = True"
| "isinstance_int v = False"

fun isinstance_float :: "pyval \<Rightarrow> bool" where
  "isinstance_float (PFloat f) = True"
| "isinstance_float v = False"

fun isinstance_str :: "pyval \<Rightarrow> bool" where
  "isinstance_str (PStr s) = True"
| "isinstance_str v = False"

fun isinstance_NoneType :: "pyval \<Rightarrow> bool" where
  "isinstance_NoneType PNone = True"
| "isinstance_NoneType v = False"

fun has_call :: "pyval \<Rightarrow> bool" where
  "has_call (PCallable f) = True"
| "has_call v = False"

fun int_of :: "pyval \<Rightarrow> int" where
  "int_of (PInt i) = i"
| "int_of (PBool b) = (if b then 1 else 0)"
| "int_of v = 0"

text \<open>The number a numpy comparison reads from a Python scalar; a string has none.\<close>

fun eps_num :: "pyval \<Rightarrow> error + real" where
  "eps_num (PInt i) = Inr (of_int i)"
| "eps_num (PBool b) = Inr (if b then 1 else 0)"
| "eps_num (PFloat f) = Inr f"
| "eps_num v = Inl TypeError"

text \<open>\<^verbatim>\<open>x.size\<close> of an (n, D) array is n * D.\<close>

definition np_size :: "coords \<Rightarrow> nat" where
  "np_size x = length (concat x)"

text \<open>\<^verbatim>\<open>xs[idx]\<close> with an integer index array: IndexError when an index is out of range.\<close>

definition np_take :: "'a list \<Rightarrow> nat list \<Rightarrow> error + 'a list" where
  "np_take xs idx =
     (if list_all (\<lambda>i. i < length xs) idx then Inr (map (nth xs) idx) else Inl IndexError)"

text \<open>
  \<^verbatim>\<open>np.argsort\<close>: a permutation of the row numbers that sorts the array. The model takes
  the stable one (rows with equal keys stay in their order).
\<close>

definition np_argsort :: "'a::linorder list \<Rightarrow> nat list" where
  "np_argsort xs = map snd (sort_key fst (zip xs [0..<length xs]))"

definition np_unique :: "int list \<Rightarrow> int list" where
  "np_unique xs = sorted_list_of_set (set xs)"

text \<open>\<^verbatim>\<open>np.unique(xs, return_index=True)[1]\<close>: where each distinct value occurs first.\<close>

definition np_unique_index :: "int list \<Rightarrow> nat list" where
  "np_unique_index xs = map (\<lambda>v. length (takeWhile (\<lambda>x. x \<noteq> v) xs)) (np_unique xs)"

definition group_data :: "int list \<Rightarrow> int list \<times> nat list" where
  "group_data frame_data = (np_unique frame_data, tl (np_unique_index frame_data))"

text \<open>\<^verbatim>\<open>np.split(xs, idx)\<close>: the sections xs[:i1], xs[i1:i2], ..., xs[ik:].\<close>

primrec split_from :: "nat \<Rightarrow> 'a list \<Rightarrow> nat list \<Rightarrow> 'a list list" where
  "split_from prev xs [] = [drop prev xs]"
| "split_from prev xs (i # idx) = take (i - prev) (drop prev xs) # split_from i xs idx"

definition np_split :: "'a list \<Rightarrow> nat list \<Rightarrow> 'a list list" where
  "np_split xs idx = split_from 0 xs idx"

text \<open>
  \<^verbatim>\<open>out = np.full_like(mask, -1); out[~mask] = values\<close>: the values go, in order, to the
  rows where the mask is False. numpy broadcasts a single value and raises ValueError
  on any other length mismatch.
\<close>

fun fill_rows :: "bool list \<Rightarrow> int list \<Rightarrow> int list" where
  "fill_rows [] vs = []"
| "fill_rows (True # ms) vs = -1 # fill_rows ms vs"
| "fill_rows (False # ms) [] = -1 # fill_rows ms []"
| "fill_rows (False # ms) (v # vs) = v # fill_rows ms vs"

definition assign_rows :: "bool list \<Rightarrow> int list \<Rightarrow> error + int list" where
  "assign_rows nanrows vs =
     (let k = length (filter Not nanrows) in
      if length vs = k then Inr (fill_rows nanrows vs)
      else if length vs = 1 then Inr (fill_rows nanrows (replicate k (hd vs)))
      else Inl ValueError)"

section \<open>The clustering backends\<close>

text \<open>
  DBSCAN (scikit-learn) and HDBSCAN are libraries outside the repository: the fitted
  \<^verbatim>\<open>labels_\<close> (one integer per row, -1 for noise) are parameters of the model, and a
  backend may raise. \<open>x_dbscan\<close> and \<open>x_hdbscan\<close> are the repository's wrappers
  \<^verbatim>\<open>_dbscan\<close> and \<^verbatim>\<open>_hdbscan\<close>.
\<close>

record backends =
  DBSCAN_fit :: "pyval \<Rightarrow> pyval \<Rightarrow> coords \<Rightarrow> error + int list"
  HDBSCAN_fit :: "pyval \<Rightarrow> pyval \<Rightarrow> pyval \<Rightarrow> string \<Rightarrow> coords \<Rightarrow> error + int list"

definition relabel :: "int list \<Rightarrow> int option list" where
  "relabel cluster_labels = map (\<lambda>l. if l > -1 then Some (l + 1) else None) cluster_labels"

definition x_dbscan :: "backends \<Rightarrow> pyval \<Rightarrow> pyval \<Rightarrow> coords \<Rightarrow> error + int option list" where
  "x_dbscan sk eps minClSz x =
     (if np_size x \<noteq> 0 then
        (case DBSCAN_fit sk eps minClSz x of
           Inl e \<Rightarrow> Inl e
         | Inr cluster_labels \<Rightarrow> Inr (relabel cluster_labels))
      else Inr [])"

definition x_hdbscan ::
  "backends \<Rightarrow> pyval \<Rightarrow> pyval \<Rightarrow> pyval \<Rightarrow> string \<Rightarrow> coords \<Rightarrow> error + int option list" where
  "x_hdbscan sk eps minClSz min_samples cluster_selection_method x =
     (if np_size x \<noteq> 0 then
        (case HDBSCAN_fit sk minClSz min_samples eps cluster_selection_method x of
           Inl e \<Rightarrow> Inl e
         | Inr cluster_labels \<Rightarrow> Inr (relabel cluster_labels))
      else Inr [])"

section \<open>Nearest neighbours and brute-force linking\<close>

text \<open>
  \<^verbatim>\<open>KDTree(data).query(x, k=1)\<close> answers, for each row of x, the distance to the nearest
  row of data and its row number. The model scans the data and keeps the first row among
  equally near ones (scipy's own tie-break is not specified). On a tree without data
  scipy answers an infinite distance, \<open>None\<close> here, and the row number \<open>len(data)\<close>.
\<close>

datatype KDTree = KDTree (tree_data: coords)

definition dist_euclid :: "point \<Rightarrow> point \<Rightarrow> real" where
  "dist_euclid p q = sqrt (\<Sum>(a, b) \<leftarrow> zip p q. (a - b)\<^sup>2)"

primrec kd_scan :: "point \<Rightarrow> nat \<Rightarrow> coords \<Rightarrow> real \<times> nat \<Rightarrow> real \<times> nat" where
  "kd_scan p i [] best = best"
| "kd_scan p i (q # qs) best =
     kd_scan p (Suc i) qs (if dist_euclid p q < fst best then (dist_euclid p q, i) else best)"

definition kd_nearest :: "coords \<Rightarrow> point \<Rightarrow> real option \<times> nat" where
  "kd_nearest data p =
     (case data of
        [] \<Rightarrow> (None, 0)
      | q # qs \<Rightarrow> (let r = kd_scan p 1 qs (dist_euclid p q, 0) in (Some (fst r), snd r)))"

definition kdtree_query :: "KDTree \<Rightarrow> coords \<Rightarrow> (real option \<times> nat) list" where
  "kdtree_query t x = map (kd_nearest (tree_data t)) x"

text \<open>\<^verbatim>\<open>nn_dist <= epsPrev\<close>, row by row; an infinite distance is not within any radius.\<close>

definition within_eps :: "real \<Rightarrow> real option \<Rightarrow> bool" where
  "within_eps e d = (case d of None \<Rightarrow> False | Some v \<Rightarrow> v \<le> e)"

definition select_rows :: "'a list \<Rightarrow> bool list \<Rightarrow> 'a list" where
  "select_rows xs keep = map fst (filter snd (zip xs keep))"

text \<open>
  The two arrays that \<^verbatim>\<open>brute_force_linking\<close> computes first: \<^verbatim>\<open>prev_cluster_labels\<close>, the
  memory label of the nearest memory row of every point of the cluster, and
  \<^verbatim>\<open>prev_cluster_labels_eps\<close>, those of them whose neighbour is within \<^verbatim>\<open>epsPrev\<close>.
\<close>

definition prev_cluster_labels :: "int list \<Rightarrow> KDTree \<Rightarrow> coords \<Rightarrow> error + int list" where
  "prev_cluster_labels memory_cluster_labels memory_kdtree cluster_coordinates =
     np_take memory_cluster_labels (map snd (kdtree_query memory_kdtree cluster_coordinates))"

definition prev_cluster_labels_eps :: "real \<Rightarrow> int list \<Rightarrow> KDTree \<Rightarrow> coords \<Rightarrow> int list" where
  "prev_cluster_labels_eps eps prev memory_kdtree cluster_coordinates =
     select_rows prev
       (map (within_eps eps \<circ> fst) (kdtree_query memory_kdtree cluster_coordinates))"

definition brute_force_linking ::
  "int list \<Rightarrow> coords \<Rightarrow> int list \<Rightarrow> KDTree \<Rightarrow> int \<Rightarrow> pyval \<Rightarrow> int \<Rightarrow> error + (int list \<times> int)" where
  "brute_force_linking cluster_labels cluster_coordinates memory_cluster_labels memory_kdtree
       propagation_threshold epsPrev max_cluster_label =
     (case prev_cluster_labels memory_cluster_labels memory_kdtree cluster_coordinates of
        Inl e \<Rightarrow> Inl e
      | Inr prev \<Rightarrow>
          (case eps_num epsPrev of
             Inl e \<Rightarrow> Inl e
           | Inr eps \<Rightarrow>
               (let eligible = prev_cluster_labels_eps eps prev memory_kdtree cluster_coordinates
                in if int (length eligible) < propagation_threshold then
                     Inr (replicate (length cluster_labels) (max_cluster_label + 1),
                          max_cluster_label + 1)
                   else if length (np_unique eligible) = 0 then
                     Inr (replicate (length cluster_labels) (max_cluster_label + 1),
                          max_cluster_label + 1)
                   else Inr (prev, max_cluster_label))))"

section \<open>Memory\<close>

record memory =
  n_timepoints :: int
  coordinates :: "coords list"
  prev_cluster_ids :: "int list list"
  max_prev_cluster_id :: int

text \<open>\<^verbatim>\<open>list.pop(0)\<close> on an empty list raises IndexError.\<close>

definition update :: "coords \<Rightarrow> int list \<Rightarrow> memory \<Rightarrow> error + memory" where
  "update new_coordinates new_cluster_ids m =
     (if int (length (coordinates m)) = n_timepoints m then
        (if coordinates m = [] \<or> prev_cluster_ids m = [] then Inl IndexError
         else Inr (m\<lparr>coordinates := tl (coordinates m) @ [new_coordinates],
                     prev_cluster_ids := tl (prev_cluster_ids m) @ [new_cluster_ids]\<rparr>))
      else Inr (m\<lparr>coordinates := coordinates m @ [new_coordinates],
                  prev_cluster_ids := prev_cluster_ids m @ [new_cluster_ids]\<rparr>))"

definition all_coordinates :: "memory \<Rightarrow> error + coords" where
  "all_coordinates m =
     (if length (coordinates m) > 1 then Inr (concat (coordinates m))
      else case coordinates m of [] \<Rightarrow> Inl IndexError | c # cs \<Rightarrow> Inr c)"

definition all_cluster_ids :: "memory \<Rightarrow> error + int list" where
  "all_cluster_ids m =
     (if length (prev_cluster_ids m) > 1 then Inr (concat (prev_cluster_ids m))
      else case prev_cluster_ids m of [] \<Rightarrow> Inl IndexError | c # cs \<Rightarrow> Inr c)"

section \<open>Linker\<close>

record Linker =
  x_memory :: memory
  nn_tree :: "KDTree option"
  propagation_threshold :: int
  epsPrev :: pyval
  n_jobs :: int
  event_ids :: "int list"
  max_prev_event_id :: int
  clustering_function :: "coords \<Rightarrow> error + int option list"

definition validate_input ::
  "pyval \<Rightarrow> pyval \<Rightarrow> pyval \<Rightarrow> pyval \<Rightarrow> pyval \<Rightarrow> pyval \<Rightarrow> pyval \<Rightarrow> pyval \<Rightarrow> error + unit" where
  "validate_input eps epsPrev' minClSz minSamples clusteringMethod propagationThreshold nPrev nJobs =
     (if \<not> (isinstance_int eps \<or> isinstance_float eps \<or> isinstance_str eps) then Inl ValueError
      else if \<not> (isinstance_int epsPrev' \<or> isinstance_NoneType epsPrev') then Inl ValueError
      else if \<not> list_all isinstance_int [minClSz, minSamples, propagationThreshold, nPrev, nJobs]
        then Inl ValueError
      else if \<not> isinstance_str clusteringMethod then Inl ValueError
      else Inr ())"

text \<open>
  \<^verbatim>\<open>Linker.__init__\<close>. The fields are assigned before \<^verbatim>\<open>_validate_input\<close> runs; when it
  raises there is no Linker, so the model validates first. The integer parameters that
  passed validation are read with \<open>int_of\<close>.
\<close>

definition Linker_init ::
  "backends \<Rightarrow> pyval \<Rightarrow> pyval \<Rightarrow> pyval \<Rightarrow> pyval \<Rightarrow> pyval \<Rightarrow> pyval \<Rightarrow> pyval \<Rightarrow> pyval \<Rightarrow> error + Linker" where
  "Linker_init sk eps epsPrev' minClSz minSamples clusteringMethod propagationThreshold nPrev nJobs =
     (case validate_input eps epsPrev' minClSz minSamples clusteringMethod propagationThreshold
             nPrev nJobs of
        Inl e \<Rightarrow> Inl e
      | Inr u \<Rightarrow>
          (let L = \<lparr>x_memory = \<lparr>n_timepoints = int_of nPrev, coordinates = [],
                                 prev_cluster_ids = [], max_prev_cluster_id = 0\<rparr>,
                    nn_tree = None,
                    propagation_threshold = int_of propagationThreshold,
                    epsPrev = (case epsPrev' of PNone \<Rightarrow> eps | _ \<Rightarrow> epsPrev'),
                    n_jobs = int_of nJobs,
                    event_ids = [],
                    max_prev_event_id = 0,
                    clustering_function = (\<lambda>x. Inr [])\<rparr>
           in case clusteringMethod of
                PCallable f \<Rightarrow> Inr (L\<lparr>clustering_function := f\<rparr>)
              | PStr s \<Rightarrow>
                  (if s = ''dbscan'' then
                     Inr (L\<lparr>clustering_function := x_dbscan sk eps minClSz\<rparr>)
                   else if s = ''hdbscan'' then
                     Inr (L\<lparr>clustering_function := x_hdbscan sk eps minClSz minSamples ''leaf''\<rparr>)
                   else Inl ValueError)
              | _ \<Rightarrow> Inl ValueError))"

text \<open>
  \<^verbatim>\<open>_clustering\<close>: the labels of the kept rows, the kept rows, and the noise mask. Indexing
  x with a mask of another length raises IndexError.
\<close>

definition clustering :: "Linker \<Rightarrow> coords \<Rightarrow> error + (int list \<times> coords \<times> bool list)" where
  "clustering L x =
     (if np_size x = 0 then Inr ([], x, [])
      else case clustering_function L x of
             Inl e \<Rightarrow> Inl e
           | Inr clusters \<Rightarrow>
               (let nanrows = map (\<lambda>c. c = None) clusters
                in if length nanrows \<noteq> length x then Inl IndexError
                   else Inr (List.map_filter (\<lambda>c. c) clusters,
                             select_rows x (map Not nanrows), nanrows)))"

definition link_next_cluster :: "Linker \<Rightarrow> int list \<Rightarrow> coords \<Rightarrow> error + (int list \<times> Linker)" where
  "link_next_cluster L cluster cluster_coordinates =
     (case all_cluster_ids (x_memory L) of
        Inl e \<Rightarrow> Inl e
      | Inr ids \<Rightarrow>
          (case nn_tree L of
             None \<Rightarrow> Inl AttributeError
           | Some t \<Rightarrow>
               (case brute_force_linking cluster cluster_coordinates ids t
                       (propagation_threshold L) (epsPrev L) (max_prev_cluster_id (x_memory L)) of
                  Inl e \<Rightarrow> Inl e
                | Inr (linked_clusters, max_cluster_label) \<Rightarrow>
                    Inr (linked_clusters,
                         L\<lparr>x_memory := (x_memory L)\<lparr>max_prev_cluster_id := max_cluster_label\<rparr>\<rparr>))))"

definition update_tree :: "coords \<Rightarrow> Linker \<Rightarrow> Linker" where
  "update_tree cs L = L\<lparr>nn_tree := Some (KDTree cs)\<rparr>"

definition group_by_clusterid ::
  "int list \<Rightarrow> coords \<Rightarrow> error + (nat list \<times> int list list \<times> coords list)" where
  "group_by_clusterid cluster_ids cs =
     (let cluster_ids_sort_key = np_argsort cluster_ids;
          cluster_ids_sorted = map (nth cluster_ids) cluster_ids_sort_key
      in case np_take cs cluster_ids_sort_key of
           Inl e \<Rightarrow> Inl e
         | Inr coordinates_sorted \<Rightarrow>
             (let group_by_cluster_id = snd (group_data cluster_ids_sorted)
              in Inr (cluster_ids_sort_key,
                      np_split cluster_ids_sorted group_by_cluster_id,
                      np_split coordinates_sorted group_by_cluster_id)))"

text \<open>The list comprehension of \<^verbatim>\<open>_update_id\<close>: the groups are linked one after another.\<close>

fun link_clusters :: "(int list \<times> coords) list \<Rightarrow> Linker \<Rightarrow> error + (int list list \<times> Linker)" where
  "link_clusters [] L = Inr ([], L)"
| "link_clusters ((cluster, cluster_coordinates) # rest) L =
     (case link_next_cluster L cluster cluster_coordinates of
        Inl e \<Rightarrow> Inl e
      | Inr (ids, L') \<Rightarrow>
          (case link_clusters rest L' of
             Inl e \<Rightarrow> Inl e
           | Inr (idss, L'') \<Rightarrow> Inr (ids # idss, L'')))"

definition update_id :: "int list \<Rightarrow> coords \<Rightarrow> Linker \<Rightarrow> error + (int list \<times> Linker)" where
  "update_id cluster_ids cs L =
     (case all_coordinates (x_memory L) of
        Inl e \<Rightarrow> Inl e
      | Inr memory_coordinates \<Rightarrow>
          (case group_by_clusterid cluster_ids cs of
             Inl e \<Rightarrow> Inl e
           | Inr (cluster_ids_sort_key, grouped_clusters, grouped_coordinates) \<Rightarrow>
               (case link_clusters (zip grouped_clusters grouped_coordinates)
                       (update_tree memory_coordinates L) of
                  Inl e \<Rightarrow> Inl e
                | Inr (linked_cluster_ids, L') \<Rightarrow>
                    (case np_take (concat linked_cluster_ids) (np_argsort cluster_ids_sort_key) of
                       Inl e \<Rightarrow> Inl e
                     | Inr linked \<Rightarrow> Inr (linked, L')))))"

text \<open>\<^verbatim>\<open>_update_id_empty\<close>: \<^verbatim>\<open>np.nanmax\<close> of an empty array raises ValueError, which is passed over.\<close>

definition update_id_empty :: "int list \<Rightarrow> Linker \<Rightarrow> int list \<times> Linker" where
  "update_id_empty cluster_ids L =
     (let linked_cluster_ids = map (\<lambda>c. c + max_prev_cluster_id (x_memory L)) cluster_ids
      in (linked_cluster_ids,
          if linked_cluster_ids = [] then L
          else L\<lparr>x_memory := (x_memory L)\<lparr>max_prev_cluster_id := Max (set linked_cluster_ids)\<rparr>\<rparr>))"

definition link_ids :: "int list \<Rightarrow> coords \<Rightarrow> Linker \<Rightarrow> error + (int list \<times> Linker)" where
  "link_ids cluster_ids cs L =
     (if length (prev_cluster_ids (x_memory L)) = 0 then Inr (update_id_empty cluster_ids L)
      else if length cluster_ids = 0 then Inr (update_id_empty cluster_ids L)
      else case all_cluster_ids (x_memory L) of
             Inl e \<Rightarrow> Inl e
           | Inr ids \<Rightarrow>
               (if length ids = 0 then Inr (update_id_empty cluster_ids L)
                else update_id cluster_ids cs L))"

definition link :: "coords \<Rightarrow> Linker \<Rightarrow> error + Linker" where
  "link input_coordinates L =
     (case clustering L input_coordinates of
        Inl e \<Rightarrow> Inl e
      | Inr (cluster_ids, cs, nanrows) \<Rightarrow>
          (case link_ids cluster_ids cs L of
             Inl e \<Rightarrow> Inl e
           | Inr (linked_cluster_ids, L') \<Rightarrow>
               (case update cs linked_cluster_ids (x_memory L') of
                  Inl e \<Rightarrow> Inl e
                | Inr m \<Rightarrow>
                    (case assign_rows nanrows linked_cluster_ids of
                       Inl e \<Rightarrow> Inl e
                     | Inr ev \<Rightarrow> Inr (L'\<lparr>x_memory := m, event_ids := ev\<rparr>)))))"

fun link_all :: "coords list \<Rightarrow> Linker \<Rightarrow> error + Linker" where
  "link_all [] L = Inr L"
| "link_all (x # xs) L = (case link x L of Inl e \<Rightarrow> Inl e | Inr L' \<Rightarrow> link_all xs L')"

inductive reachable :: "backends \<Rightarrow> Linker \<Rightarrow> bool" for sk :: backends where
  init: "Linker_init sk eps ep mc ms cm pt np nj = Inr L \<Longrightarrow> reachable sk L"
| step: "reachable sk L \<Longrightarrow> link x L = Inr L' \<Longrightarrow> reachable sk L'"

section \<open>The tabular tracker\<close>









section \<open>The raster tracker\<close>

text \<open>
  An n-dimensional integer array is its shape and the value at each index tuple. The
  arrays of dtype uint16 hold 16-bit words: \<^verbatim>\<open>astype(np.uint16)\<close> of an integer and the
  assignment of an int64 into a uint16 array keep the value modulo 2^16.
\<close>

record ndarray =
  nd_shape :: "nat list"
  nd_at :: "nat list \<Rightarrow> int"

record ndarray16 =
  nd16_shape :: "nat list"
  nd16_at :: "nat list \<Rightarrow> 16 word"

text \<open>The index tuples of an array in row-major order, as \<^verbatim>\<open>np.indices\<close> lists them.\<close>

fun np_indices :: "nat list \<Rightarrow> nat list list" where
  "np_indices [] = [[]]"
| "np_indices (n # ns) = concat (map (\<lambda>i. map ((#) i) (np_indices ns)) [0..<n])"

text \<open>
  \<^verbatim>\<open>_image_to_coordinates\<close>: for a frame without axes \<^verbatim>\<open>reshape((-1, 0))\<close> raises
  ValueError.
\<close>

definition image_to_coordinates :: "ndarray \<Rightarrow> error + (nat list list \<times> 16 word list)" where
  "image_to_coordinates img =
     (if nd_shape img = [] then Inl ValueError
      else (let coordinates_array = np_indices (nd_shape img);
                meas_array = map (\<lambda>idx. (word_of_int (nd_at img idx) :: 16 word)) coordinates_array
            in Inr (coordinates_array, meas_array)))"

definition filter_active_img :: "nat list list \<Rightarrow> 16 word list \<Rightarrow> nat list list" where
  "filter_active_img pos_data bin_meas_data =
     select_rows pos_data (map (\<lambda>m. m > 0) bin_meas_data)"

definition in_shape :: "nat list \<Rightarrow> nat list \<Rightarrow> bool" where
  "in_shape shp idx = list_all2 (\<lambda>i n. i < n) idx shp"

definition zeros16 :: "nat list \<Rightarrow> ndarray16" where
  "zeros16 shp = \<lparr>nd16_shape = shp, nd16_at = (\<lambda>idx. 0)\<rparr>"

definition put16 :: "ndarray16 \<Rightarrow> nat list \<times> int \<Rightarrow> ndarray16" where
  "put16 out pv = out\<lparr>nd16_at := (nd16_at out)(fst pv := word_of_int (snd pv))\<rparr>"

text \<open>
  \<^verbatim>\<open>_coordinates_to_image\<close>. The positions are cast to uint16 before they index the
  output; a mask of another length than the positions and an index outside the output
  raise IndexError. The number of columns of the positions is the number of axes of the
  frame they were read from.
\<close>

definition coordinates_to_image :: "ndarray \<Rightarrow> nat list list \<Rightarrow> int list \<Rightarrow> error + ndarray16" where
  "coordinates_to_image x pos_data tracked_events =
     (let out_img = zeros16 (nd_shape x)
      in if length tracked_events = 0 then Inr out_img
         else (let tracked_events_mask = map (\<lambda>e. e > 0) tracked_events
               in if length tracked_events_mask \<noteq> length pos_data then Inl IndexError
                  else (let pos = map (map (\<lambda>i. unat (word_of_nat i :: 16 word)))
                                    (select_rows pos_data tracked_events_mask);
                            n_dims = length (nd_shape x)
                        in if n_dims = 0 then Inl ValueError
                           else if \<not> list_all (in_shape (nd_shape x)) pos then Inl IndexError
                           else Inr (foldl put16 out_img
                                      (zip pos (select_rows tracked_events tracked_events_mask))))))"

definition track_iteration_img :: "Linker \<Rightarrow> ndarray \<Rightarrow> error + (ndarray16 \<times> Linker)" where
  "track_iteration_img L x =
     (case image_to_coordinates x of
        Inl e \<Rightarrow> Inl e
      | Inr (coordinates_data, meas_data) \<Rightarrow>
          (let coordinates_data_filtered = filter_active_img coordinates_data meas_data
           in case link (map (map real) coordinates_data_filtered) L of
                Inl e \<Rightarrow> Inl e
              | Inr L' \<Rightarrow>
                  (case coordinates_to_image x coordinates_data_filtered (event_ids L') of
                     Inl e \<Rightarrow> Inl e
                   | Inr out_img \<Rightarrow> Inr (out_img, L'))))"

text \<open>\<^verbatim>\<open>str.upper\<close> on the ASCII letters.\<close>

definition upper_char :: "char \<Rightarrow> char" where
  "upper_char c =
     (case map_of (zip ''abcdefghijklmnopqrstuvwxyz'' ''ABCDEFGHIJKLMNOPQRSTUVWXYZ'') c of
        None \<Rightarrow> c
      | Some u \<Rightarrow> u)"

definition list_index :: "'a list \<Rightarrow> 'a \<Rightarrow> nat" where
  "list_index xs v = length (takeWhile (\<lambda>x. x \<noteq> v) xs)"

text \<open>
  The checks that open \<^verbatim>\<open>ImageTracker.track\<close>, in the order of the source; the loop over
  the axis names compares each name with the list it was taken from. The result is the
  axis of 'T'; \<^verbatim>\<open>dims_dict["T"]\<close> raises KeyError when there is none.
\<close>

definition track_dims :: "string \<Rightarrow> nat \<Rightarrow> error + nat" where
  "track_dims dims ndim =
     (let dims_list = map upper_char dims
      in if list_ex (\<lambda>i. i \<notin> set dims_list) dims_list then Inl ValueError
         else if length dims_list > card (set dims_list) then Inl ValueError
         else if length dims_list \<noteq> ndim then Inl ValueError
         else if CHR ''T'' \<notin> set dims_list then Inl KeyError
         else Inr (list_index dims_list (CHR ''T'')))"

text \<open>\<^verbatim>\<open>np.moveaxis(x, t, 0)\<close> and the frames that iterating over the first axis gives.\<close>

definition moveaxis_front :: "ndarray \<Rightarrow> nat \<Rightarrow> ndarray" where
  "moveaxis_front x t =
     \<lparr>nd_shape = nd_shape x ! t # take t (nd_shape x) @ drop (Suc t) (nd_shape x),
      nd_at = (\<lambda>idx. nd_at x (take t (tl idx) @ hd idx # drop t (tl idx)))\<rparr>"

definition frames_of :: "ndarray \<Rightarrow> ndarray list" where
  "frames_of x =
     map (\<lambda>k. \<lparr>nd_shape = tl (nd_shape x), nd_at = (\<lambda>idx. nd_at x (k # idx))\<rparr>)
       [0..<hd (nd_shape x)]"

fun track_frames_img :: "Linker \<Rightarrow> ndarray list \<Rightarrow> error + (ndarray16 list \<times> Linker)" where
  "track_frames_img L [] = Inr ([], L)"
| "track_frames_img L (x_frame # rest) =
     (case track_iteration_img L x_frame of
        Inl e \<Rightarrow> Inl e
      | Inr (x_tracked, L') \<Rightarrow>
          (case track_frames_img L' rest of
             Inl e \<Rightarrow> Inl e
           | Inr (outs, L'') \<Rightarrow> Inr (x_tracked # outs, L'')))"

definition track_img :: "Linker \<Rightarrow> ndarray \<Rightarrow> string \<Rightarrow> error + (ndarray16 list \<times> Linker)" where
  "track_img L x dims =
     (case track_dims dims (length (nd_shape x)) of
        Inl e \<Rightarrow> Inl e
      | Inr t \<Rightarrow> track_frames_img L (frames_of (moveaxis_front x t)))"

section \<open>Reachable states and their invariant\<close>

text \<open>
  What holds of every Linker that construction and any number of link calls can produce:
  the counter of Memory is not negative, every event id in Memory is positive and at most
  the counter, the two deques of Memory have one length, at most the memory depth when
  that is not negative, and the clustering function answers labels from 1 on.
\<close>

definition ids_ok :: "int \<Rightarrow> int list \<Rightarrow> bool" where
  "ids_ok mx ids = list_all (\<lambda>i. 0 < i \<and> i \<le> mx) ids"

definition labels_ok :: "int option list \<Rightarrow> bool" where
  "labels_ok ls = list_all (\<lambda>l. case l of None \<Rightarrow> True | Some v \<Rightarrow> 1 \<le> v) ls"

definition linker_inv :: "Linker \<Rightarrow> bool" where
  "linker_inv L =
     (0 \<le> max_prev_cluster_id (x_memory L)
      \<and> list_all (ids_ok (max_prev_cluster_id (x_memory L))) (prev_cluster_ids (x_memory L))
      \<and> length (coordinates (x_memory L)) = length (prev_cluster_ids (x_memory L))
      \<and> (n_timepoints (x_memory L) < 0
           \<or> int (length (prev_cluster_ids (x_memory L))) \<le> n_timepoints (x_memory L))
      \<and> max_prev_event_id L = 0
      \<and> (\<forall>x. case clustering_function L x of Inl e \<Rightarrow> True | Inr ls \<Rightarrow> labels_ok ls))"

text \<open>
  \<open>tail_empty j\<close>: the last j frames of Memory hold no event id.
  \<open>links_by_offset L x\<close>: the link call on x returns when the clusterer does, the linked
  ids are the labels plus the counter of Memory, and the counter becomes the largest new
  id when there is one.
\<close>

definition tail_empty :: "nat \<Rightarrow> int list list \<Rightarrow> bool" where
  "tail_empty j idss = (\<forall>i < length idss. length idss \<le> i + j \<longrightarrow> idss ! i = [])"

definition links_by_offset :: "Linker \<Rightarrow> coords \<Rightarrow> bool" where
  "links_by_offset L x =
     (case clustering L x of
        Inl e \<Rightarrow> link x L = Inl e
      | Inr (cl, cs, nan) \<Rightarrow>
          (case link x L of
             Inl e \<Rightarrow> False
           | Inr L' \<Rightarrow>
               last (prev_cluster_ids (x_memory L'))
                 = map (\<lambda>c. c + max_prev_cluster_id (x_memory L)) cl
             \<and> event_ids L' = fill_rows nan (map (\<lambda>c. c + max_prev_cluster_id (x_memory L)) cl)
             \<and> max_prev_cluster_id (x_memory L')
                 = (if cl = [] then max_prev_cluster_id (x_memory L)
                    else Max (set (map (\<lambda>c. c + max_prev_cluster_id (x_memory L)) cl)))))"

section \<open>Example data\<close>

text \<open>
  Example data for instantiating the theorems: a backend that puts all rows of a frame
  into one cluster (label 0 on every row, what DBSCAN answers on a frame whose points
  are chained within eps), the Linker that the default parameters construct with it, and
  that Linker after the frame of the two points 0 and 1 on a line.
\<close>

definition sk_single :: backends where
  "sk_single = \<lparr>DBSCAN_fit = (\<lambda>eps m x. Inr (map (\<lambda>p. 0) x)),
                HDBSCAN_fit = (\<lambda>m s eps c x. Inr (map (\<lambda>p. 0) x))\<rparr>"

definition linker0 :: Linker where
  "linker0 = \<lparr>x_memory = \<lparr>n_timepoints = 1, coordinates = [], prev_cluster_ids = [],
                           max_prev_cluster_id = 0\<rparr>,
              nn_tree = None, propagation_threshold = 1, epsPrev = PInt 1, n_jobs = 1,
              event_ids = [], max_prev_event_id = 0,
              clustering_function = x_dbscan sk_single (PInt 1) (PInt 1)\<rparr>"

definition linker1 :: Linker where
  "linker1 = \<lparr>x_memory = \<lparr>n_timepoints = 1, coordinates = [[[0], [1]]],
                           prev_cluster_ids = [[1, 1]], max_prev_cluster_id = 1\<rparr>,
              nn_tree = None, propagation_threshold = 1, epsPrev = PInt 1, n_jobs = 1,
              event_ids = [1, 1], max_prev_event_id = 0,
              clustering_function = x_dbscan sk_single (PInt 1) (PInt 1)\<rparr>"

text \<open>The same two Linkers constructed with \<^verbatim>\<open>propagationThreshold=0\<close>.\<close>

definition linker0_thr0 :: Linker where
  "linker0_thr0 = linker0\<lparr>propagation_threshold := 0\<rparr>"

definition linker1_thr0 :: Linker where
  "linker1_thr0 = linker1\<lparr>propagation_threshold := 0\<rparr>"

text \<open>The Linker after the same frame has been linked a second time.\<close>

definition linker2 :: Linker where
  "linker2 = linker1\<lparr>nn_tree := Some (KDTree [[0], [1]])\<rparr>"

text \<open>The Linker \<open>linker1\<close> after one frame without points.\<close>

definition linker1_drained :: Linker where
  "linker1_drained =
     linker1\<lparr>x_memory := \<lparr>n_timepoints = 1, coordinates = [[]], prev_cluster_ids = [[]],
                            max_prev_cluster_id = 1\<rparr>,
             event_ids := []\<rparr>"

text \<open>
  The Linkers constructed with \<^verbatim>\<open>propagationThreshold=2\<close>, before and after the frame of
  the one point 0.
\<close>

definition linker0_thr2 :: Linker where
  "linker0_thr2 = linker0\<lparr>propagation_threshold := 2\<rparr>"

definition linker1_thr2 :: Linker where
  "linker1_thr2 =
     linker0_thr2\<lparr>x_memory := \<lparr>n_timepoints = 1, coordinates = [[[0]]],
                                 prev_cluster_ids = [[1]], max_prev_cluster_id = 1\<rparr>,
                  event_ids := [1]\<rparr>"

text \<open>
  The count as the sentence of C1 words it, for comparison with the source's
  \<^verbatim>\<open>prev_cluster_labels_eps.size\<close>: the memory rows that are the nearest neighbour of some
  point of the cluster and lie within \<^verbatim>\<open>epsPrev\<close> of it, each row once.
\<close>

definition eligible_memory_rows :: "real \<Rightarrow> KDTree \<Rightarrow> coords \<Rightarrow> nat list" where
  "eligible_memory_rows eps memory_kdtree cluster_coordinates =
     remdups (map snd (filter (\<lambda>r. within_eps eps (fst r))
                         (kdtree_query memory_kdtree cluster_coordinates)))"







definition frame_ex :: ndarray where
  "frame_ex = \<lparr>nd_shape = [2], nd_at = (\<lambda>idx. if idx = [0] then - 1 else 0)\<rparr>"

section \<open>Sorting and grouping\<close>

lemma argsort_length [simp]: "length (np_argsort xs) = length xs"
  by (simp add: np_argsort_def)

lemma argsort_mset: "mset (np_argsort xs) = mset [0..<length xs]"
proof -
  have "mset (map snd (sort_key fst (zip xs [0..<length xs]))) = mset (map snd (zip xs [0..<length xs]))"
    by (simp only: mset_map mset_sort)
  then show ?thesis
    by (simp only: np_argsort_def map_snd_zip length_upt minus_nat.diff_0)
qed

lemma argsort_set: "set (np_argsort xs) = {0..<length xs}"
  using argsort_mset [of xs] by (metis atLeastLessThan_upt mset_eq_setD)

lemma argsort_distinct: "distinct (np_argsort xs)"
  using argsort_mset [of xs] by (metis distinct_upt mset_eq_imp_distinct_iff)

lemma argsort_inverse:
  assumes "distinct key" and "set key = {0..<length key}" and "k < length key"
  shows "np_argsort key ! (key ! k) = k"
proof -
  let ?zs = "zip key [0..<length key]"
  let ?ps = "sort_key fst ?zs"
  have len: "length ?ps = length key" by simp
  have "map fst ?zs = key" by simp
  have s: "sorted (map fst ?ps)" by simp
  have "mset (map fst ?ps) = mset (map fst ?zs)"
    by (simp only: mset_map mset_sort)
  then have m: "mset (map fst ?ps) = mset key"
    by (simp only: \<open>map fst ?zs = key\<close>)
  have d: "distinct (map fst ?ps)"
    using m assms(1) by (metis mset_eq_imp_distinct_iff)
  have st: "set (map fst ?ps) = {0..<length key}"
    using m assms(2) by (metis mset_eq_setD)
  have "map fst ?ps = [0..<length key]"
    using s d st by (metis sorted_list_of_set.idem_if_sorted_distinct sorted_list_of_set_range)
  then have f: "fst (?ps ! (key ! k)) = key ! k"
    using assms by (metis atLeastLessThan_iff len nth_map nth_mem nth_upt plus_nat.add_0)
  have kk: "key ! k < length ?ps" using assms len by (metis atLeastLessThan_iff nth_mem)
  then have "?ps ! (key ! k) \<in> set ?zs"
    by (metis nth_mem set_sort)
  then obtain j where j: "j < length key" "?ps ! (key ! k) = (key ! j, j)"
    by (auto simp: set_zip)
  then have "key ! j = key ! k" using f by simp
  then have "j = k" using assms(1,3) j(1) by (simp add: nth_eq_iff_index_eq)
  then show ?thesis using j kk by (simp add: np_argsort_def)
qed

lemma split_from_concat:
  "sorted (p # idx) \<Longrightarrow> concat (split_from p xs idx) = drop p xs"
proof (induction idx arbitrary: p)
  case Nil
  then show ?case by simp
next
  case (Cons i idx)
  then have "p \<le> i" and "sorted (i # idx)" by simp_all
  then have "concat (split_from i xs idx) = drop i xs" using Cons.IH by blast
  moreover have "take (i - p) (drop p xs) @ drop i xs = drop p xs"
    using \<open>p \<le> i\<close> by (metis append_take_drop_id drop_drop le_add_diff_inverse2)
  ultimately show ?case by simp
qed

lemma split_from_lengths:
  "length xs = length ys \<Longrightarrow>
   map length (split_from p xs idx) = map length (split_from p ys idx)"
  by (induction idx arbitrary: p) simp_all

lemma split_from_length [simp]: "length (split_from p xs idx) = Suc (length idx)"
  by (induction idx arbitrary: p) simp_all

lemma takeWhile_neq_sorted:
  "sorted xs \<Longrightarrow> v \<in> set xs \<Longrightarrow>
   length (takeWhile (\<lambda>x. x \<noteq> v) xs) = length (filter (\<lambda>x. x < v) xs)"
proof (induction xs)
  case Nil
  then show ?case by simp
next
  case (Cons x xs)
  show ?case
  proof (cases "x = v")
    case True
    then have "\<forall>y \<in> set xs. \<not> y < v" using Cons.prems(1) by auto
    then have "filter (\<lambda>x. x < v) xs = []" by (simp add: filter_empty_conv)
    then show ?thesis using True by simp
  next
    case False
    then have "v \<in> set xs" using Cons.prems(2) by simp
    then have "x \<le> v" using Cons.prems(1) by auto
    then have "x < v" using False by simp
    then show ?thesis using Cons False \<open>v \<in> set xs\<close> by simp
  qed
qed

lemma filter_less_mono:
  "v \<le> w \<Longrightarrow> length (filter (\<lambda>x. x < v) xs) \<le> length (filter (\<lambda>x. x < (w::int)) xs)"
  by (induction xs) auto

lemma unique_index_sorted:
  assumes "sorted xs"
  shows "sorted (np_unique_index xs)"
proof -
  have eq: "np_unique_index xs = map (\<lambda>v. length (filter (\<lambda>x. x < v) xs)) (np_unique xs)"
    using assms by (simp add: np_unique_index_def np_unique_def takeWhile_neq_sorted)
  have "sorted (np_unique xs)" by (simp add: np_unique_def)
  then have "sorted_wrt (\<lambda>v w. length (filter (\<lambda>x. x < v) xs) \<le> length (filter (\<lambda>x. x < w) xs))
               (np_unique xs)"
    by (rule sorted_wrt_mono_rel [rotated]) (simp add: filter_less_mono)
  then show ?thesis by (simp add: eq sorted_map)
qed

lemma np_split_concat:
  assumes "sorted xs"
  shows "concat (np_split ys (snd (group_data xs))) = ys"
proof -
  have "sorted (tl (np_unique_index xs))"
    using unique_index_sorted [OF assms] by (cases "np_unique_index xs") simp_all
  then have "sorted (0 # tl (np_unique_index xs))" by simp
  then show ?thesis
    by (simp only: np_split_def group_data_def snd_conv split_from_concat drop_0)
qed

section \<open>Construction and clustering\<close>

lemma relabel_ok: "labels_ok (relabel ls)"
  by (induction ls) (simp_all add: labels_ok_def relabel_def)

lemma x_dbscan_ok: "case x_dbscan sk eps m x of Inl e \<Rightarrow> True | Inr ls \<Rightarrow> labels_ok ls"
  by (simp add: x_dbscan_def relabel_ok split: sum.split) (simp add: labels_ok_def)

lemma x_hdbscan_ok: "case x_hdbscan sk eps m ms cs x of Inl e \<Rightarrow> True | Inr ls \<Rightarrow> labels_ok ls"
  by (simp add: x_hdbscan_def relabel_ok split: sum.split) (simp add: labels_ok_def)

lemma validate_str:
  "validate_input eps ep mc ms cm pt np nj = Inr u \<Longrightarrow> \<exists>s. cm = PStr s"
  by (cases cm) (simp_all add: validate_input_def split: if_splits)

lemma init_inv:
  assumes "Linker_init sk eps ep mc ms cm pt np nj = Inr L"
  shows "linker_inv L"
proof -
  from assms obtain u where v: "validate_input eps ep mc ms cm pt np nj = Inr u"
    by (auto simp: Linker_init_def split: sum.splits)
  then obtain s where s: "cm = PStr s" using validate_str by blast
  show ?thesis
  proof (cases "s = ''dbscan''")
    case True
    then show ?thesis
      using assms v s x_dbscan_ok [of sk eps mc]
      by (auto simp: Linker_init_def linker_inv_def Let_def)
  next
    case False
    then have "s = ''hdbscan''"
      using assms v s by (auto simp: Linker_init_def Let_def split: if_splits)
    then show ?thesis
      using assms v s x_hdbscan_ok [of sk eps mc ms "''leaf''"]
      by (auto simp: Linker_init_def linker_inv_def Let_def)
  qed
qed

lemma map_filter_id_length:
  "length (List.map_filter (\<lambda>c. c) cs) = length (filter Not (map (\<lambda>c. c = None) cs))"
  by (induction cs) (auto simp: List.map_filter_simps split: option.splits)

lemma select_rows_Not_length:
  "length ms = length xs \<Longrightarrow> length (select_rows xs (map Not ms)) = length (filter Not ms)"
proof (induction xs arbitrary: ms)
  case Nil
  then show ?case by (simp add: select_rows_def)
next
  case (Cons x xs)
  then obtain k ks where k: "ms = k # ks" by (cases ms) auto
  then have "length (select_rows xs (map Not ks)) = length (filter Not ks)"
    using Cons by simp
  then show ?case using k by (simp add: select_rows_def)
qed

lemma map_filter_labels:
  "labels_ok cs \<Longrightarrow> list_all (\<lambda>c. 1 \<le> c) (List.map_filter (\<lambda>c. c) cs)"
  by (induction cs) (auto simp: List.map_filter_simps labels_ok_def split: option.splits)

lemma clustering_empty:
  "np_size x = 0 \<Longrightarrow> clustering L x = Inr ([], x, [])"
  by (simp add: clustering_def)

lemma clustering_facts:
  assumes "linker_inv L" and "clustering L x = Inr (cl, cs, nan)" and "np_size x \<noteq> 0"
  shows "list_all (\<lambda>c. 1 \<le> c) cl" and "length cl = length cs"
    and "length cl = length (filter Not nan)" and "length nan = length x"
    and "cs = select_rows x (map Not nan)"
proof -
  from assms(2,3) obtain ls where ls: "clustering_function L x = Inr ls"
    and n: "length ls = length x"
    and cl: "cl = List.map_filter (\<lambda>c. c) ls"
    and cs: "cs = select_rows x (map Not (map (\<lambda>c. c = None) ls))"
    and nan: "nan = map (\<lambda>c. c = None) ls"
    by (auto simp: clustering_def Let_def split: sum.splits if_splits)
  have "labels_ok ls"
    using assms(1) ls by (auto simp: linker_inv_def dest!: spec [of _ x])
  then show "list_all (\<lambda>c. 1 \<le> c) cl" by (simp add: cl map_filter_labels)
  show "length cl = length (filter Not nan)" by (simp add: cl nan map_filter_id_length)
  show "length nan = length x" by (simp add: nan n)
  show "cs = select_rows x (map Not nan)" by (simp add: cs nan)
  have "length cs = length (filter Not nan)"
    unfolding \<open>cs = select_rows x (map Not nan)\<close>
    by (rule select_rows_Not_length) (simp add: nan n)
  then show "length cl = length cs"
    using \<open>length cl = length (filter Not nan)\<close> by simp
qed

section \<open>Linking one cluster and all clusters of a frame\<close>

lemma np_take_Inr:
  "np_take xs idx = Inr ys \<Longrightarrow> ys = map (nth xs) idx \<and> list_all (\<lambda>i. i < length xs) idx"
  by (simp add: np_take_def split: if_splits)

lemma np_take_set: "np_take xs idx = Inr ys \<Longrightarrow> set ys \<subseteq> set xs"
  by (auto simp: np_take_def list_all_iff split: if_splits)

lemma np_take_length: "np_take xs idx = Inr ys \<Longrightarrow> length ys = length idx"
  by (auto simp: np_take_def split: if_splits)

lemma brute_force_linking_cases:
  assumes "brute_force_linking cl cc ml t pt ep mx = Inr (ids, mx')"
  shows "(ids = replicate (length cl) (mx + 1) \<and> mx' = mx + 1)
       \<or> (np_take ml (map snd (kdtree_query t cc)) = Inr ids \<and> mx' = mx)"
  using assms
  by (auto simp: brute_force_linking_def prev_cluster_labels_def Let_def
           split: sum.splits if_splits)

lemma brute_force_linking_facts:
  assumes "brute_force_linking cl cc ml t pt ep mx = Inr (ids, mx')"
  shows "mx \<le> mx'" and "set ids \<subseteq> set ml \<union> {mx'}" and "set ids \<subseteq> set ml \<or> mx' = mx + 1"
    and "length cl = length cc \<Longrightarrow> length ids = length cl"
  using brute_force_linking_cases [OF assms]
  by (auto dest: np_take_set np_take_length simp: kdtree_query_def)

lemma link_next_cluster_facts:
  assumes "link_next_cluster L cl cc = Inr (ids, L')"
  shows "\<exists>mx'. L' = L\<lparr>x_memory := (x_memory L)\<lparr>max_prev_cluster_id := mx'\<rparr>\<rparr>
           \<and> max_prev_cluster_id (x_memory L) \<le> mx'
           \<and> (\<forall>i \<in> set ids. (\<exists>ml \<in> set (prev_cluster_ids (x_memory L)). i \<in> set ml)
                  \<or> (max_prev_cluster_id (x_memory L) < i \<and> i \<le> mx'))
           \<and> (length cl = length cc \<longrightarrow> length ids = length cl)"
proof -
  from assms obtain ml t mx' where ml: "all_cluster_ids (x_memory L) = Inr ml"
    and b: "brute_force_linking cl cc ml t (propagation_threshold L) (epsPrev L)
              (max_prev_cluster_id (x_memory L)) = Inr (ids, mx')"
    and L': "L' = L\<lparr>x_memory := (x_memory L)\<lparr>max_prev_cluster_id := mx'\<rparr>\<rparr>"
    by (auto simp: link_next_cluster_def split: sum.splits option.splits)
  have sub: "set ml \<subseteq> \<Union> (set ` set (prev_cluster_ids (x_memory L)))"
    using ml by (auto simp: all_cluster_ids_def split: if_splits list.splits)
  have "\<forall>i \<in> set ids. (\<exists>ml \<in> set (prev_cluster_ids (x_memory L)). i \<in> set ml)
                  \<or> (max_prev_cluster_id (x_memory L) < i \<and> i \<le> mx')"
  proof
    fix i assume i: "i \<in> set ids"
    show "(\<exists>ml \<in> set (prev_cluster_ids (x_memory L)). i \<in> set ml)
                  \<or> (max_prev_cluster_id (x_memory L) < i \<and> i \<le> mx')"
    proof (cases "i \<in> set ml")
      case True
      then show ?thesis using sub by auto
    next
      case False
      then have "i = mx'" and "mx' = max_prev_cluster_id (x_memory L) + 1"
        using brute_force_linking_facts(2,3) [OF b] i by auto
      then show ?thesis by simp
    qed
  qed
  then show ?thesis
    using L' brute_force_linking_facts(1,4) [OF b] by blast
qed

lemma argsort_sorted: "sorted (map (nth xs) (np_argsort xs))"
proof -
  have "set (sort_key fst (zip xs [0..<length xs])) = set (zip xs [0..<length xs])"
    by simp
  then have "\<forall>p \<in> set (sort_key fst (zip xs [0..<length xs])). xs ! snd p = fst p"
    by (auto simp: set_zip)
  then have "map (nth xs) (np_argsort xs) = map fst (sort_key fst (zip xs [0..<length xs]))"
    by (simp add: np_argsort_def)
  then show ?thesis by simp
qed

lemma link_clusters_facts:
  "link_clusters gs L = Inr (idss, L') \<Longrightarrow>
   \<exists>mx'. L' = L\<lparr>x_memory := (x_memory L)\<lparr>max_prev_cluster_id := mx'\<rparr>\<rparr>
      \<and> max_prev_cluster_id (x_memory L) \<le> mx'
      \<and> (\<forall>i \<in> set (concat idss). (\<exists>ml \<in> set (prev_cluster_ids (x_memory L)). i \<in> set ml)
                  \<or> (max_prev_cluster_id (x_memory L) < i \<and> i \<le> mx'))
      \<and> (list_all (\<lambda>g. length (fst g) = length (snd g)) gs
           \<longrightarrow> map length idss = map (length \<circ> fst) gs)"
proof (induction gs arbitrary: L idss)
  case Nil
  then have "L' = L" and "idss = []" by simp_all
  then show ?case
    by (auto intro!: exI [of _ "max_prev_cluster_id (x_memory L)"])
next
  case (Cons g gs)
  obtain c cc where g: "g = (c, cc)" by (cases g)
  from Cons.prems g obtain ids L1 idss' where
    s1: "link_next_cluster L c cc = Inr (ids, L1)" and
    s2: "link_clusters gs L1 = Inr (idss', L')" and
    idss: "idss = ids # idss'"
    by (auto split: sum.splits)
  let ?m = "max_prev_cluster_id (x_memory L)"
  let ?P = "\<lambda>i. \<exists>ml \<in> set (prev_cluster_ids (x_memory L)). i \<in> set ml"
  from link_next_cluster_facts [OF s1] obtain m1 where
    L1: "L1 = L\<lparr>x_memory := (x_memory L)\<lparr>max_prev_cluster_id := m1\<rparr>\<rparr>" and
    m1: "?m \<le> m1" and
    i1: "\<forall>i \<in> set ids. ?P i \<or> (?m < i \<and> i \<le> m1)" and
    l1: "length c = length cc \<longrightarrow> length ids = length c"
    by blast
  from Cons.IH [OF s2] obtain m2 where
    L2: "L' = L1\<lparr>x_memory := (x_memory L1)\<lparr>max_prev_cluster_id := m2\<rparr>\<rparr>" and
    m2: "max_prev_cluster_id (x_memory L1) \<le> m2" and
    i2: "\<forall>i \<in> set (concat idss').
           (\<exists>ml \<in> set (prev_cluster_ids (x_memory L1)). i \<in> set ml)
           \<or> (max_prev_cluster_id (x_memory L1) < i \<and> i \<le> m2)" and
    l2: "list_all (\<lambda>g. length (fst g) = length (snd g)) gs
           \<longrightarrow> map length idss' = map (length \<circ> fst) gs"
    by blast
  have a: "L' = L\<lparr>x_memory := (x_memory L)\<lparr>max_prev_cluster_id := m2\<rparr>\<rparr>"
    by (simp add: L1 L2)
  have b: "?m \<le> m2" using m1 m2 by (simp add: L1)
  have c: "\<forall>i \<in> set (concat idss). ?P i \<or> (?m < i \<and> i \<le> m2)"
  proof
    fix i assume "i \<in> set (concat idss)"
    then consider "i \<in> set ids" | "i \<in> set (concat idss')" by (auto simp: idss)
    then show "?P i \<or> (?m < i \<and> i \<le> m2)"
    proof cases
      case 1
      then show ?thesis using i1 m2 by (auto simp: L1)
    next
      case 2
      then have "?P i \<or> (m1 < i \<and> i \<le> m2)" using i2 by (auto simp: L1)
      then show ?thesis using m1 by auto
    qed
  qed
  have d: "list_all (\<lambda>g. length (fst g) = length (snd g)) (g # gs)
           \<longrightarrow> map length idss = map (length \<circ> fst) (g # gs)"
    using l1 l2 by (simp add: g idss)
  show ?case using a b c d by blast
qed

lemma zip_same_lengths:
  "map length as = map length bs \<Longrightarrow>
   list_all (\<lambda>g. length (fst g) = length (snd g)) (zip as bs)
   \<and> map (length \<circ> fst) (zip as bs) = map length as"
proof (induction as arbitrary: bs)
  case Nil
  then show ?case by simp
next
  case (Cons a as)
  then obtain b bs' where "bs = b # bs'" by (cases bs) auto
  then show ?case using Cons by auto
qed

lemma group_by_clusterid_facts:
  assumes "group_by_clusterid cl cs = Inr (key, gcl, gco)" and "length cl = length cs"
  shows "key = np_argsort cl" and "concat gcl = map (nth cl) key"
    and "concat gco = map (nth cs) key" and "map length gcl = map length gco"
proof -
  let ?srt = "map (nth cl) (np_argsort cl)"
  let ?g = "snd (group_data ?srt)"
  from assms(1) obtain co where co: "np_take cs (np_argsort cl) = Inr co"
    and key: "key = np_argsort cl" and gcl: "gcl = np_split ?srt ?g"
    and gco: "gco = np_split co ?g"
    by (auto simp: group_by_clusterid_def Let_def split: sum.splits)
  have s: "sorted ?srt" by (rule argsort_sorted)
  show "key = np_argsort cl" by (rule key)
  show "concat gcl = map (nth cl) key"
    unfolding gcl key by (rule np_split_concat [OF s])
  have "co = map (nth cs) (np_argsort cl)" using np_take_Inr [OF co] by simp
  then show "concat gco = map (nth cs) key"
    unfolding gco key using np_split_concat [OF s, of co] by simp
  have "length ?srt = length co" using np_take_length [OF co] by simp
  then show "map length gcl = map length gco"
    unfolding gcl gco np_split_def by (rule split_from_lengths)
qed

lemma update_id_facts:
  assumes "update_id cl cs L = Inr (linked, L')" and "length cl = length cs"
  shows "\<exists>mc gcl gco idss mx'.
           all_coordinates (x_memory L) = Inr mc
         \<and> group_by_clusterid cl cs = Inr (np_argsort cl, gcl, gco)
         \<and> link_clusters (zip gcl gco) (update_tree mc L) = Inr (idss, L')
         \<and> L' = (update_tree mc L)\<lparr>x_memory := (x_memory L)\<lparr>max_prev_cluster_id := mx'\<rparr>\<rparr>
         \<and> max_prev_cluster_id (x_memory L) \<le> mx'
         \<and> (\<forall>i \<in> set linked. (\<exists>ml \<in> set (prev_cluster_ids (x_memory L)). i \<in> set ml)
                  \<or> (max_prev_cluster_id (x_memory L) < i \<and> i \<le> mx'))
         \<and> length (concat idss) = length cl
         \<and> length linked = length cl
         \<and> (\<forall>k < length cl. linked ! (np_argsort cl ! k) = concat idss ! k)"
proof -
  from assms(1) obtain mc key gcl gco idss where
    mc: "all_coordinates (x_memory L) = Inr mc" and
    g: "group_by_clusterid cl cs = Inr (key, gcl, gco)" and
    lc: "link_clusters (zip gcl gco) (update_tree mc L) = Inr (idss, L')" and
    tk: "np_take (concat idss) (np_argsort key) = Inr linked"
    by (auto simp: update_id_def split: sum.splits prod.splits)
  note gf = group_by_clusterid_facts [OF g assms(2)]
  let ?L1 = "update_tree mc L"
  have mem: "x_memory ?L1 = x_memory L" by (simp add: update_tree_def)
  from link_clusters_facts [OF lc] obtain mx' where
    L': "L' = ?L1\<lparr>x_memory := (x_memory L)\<lparr>max_prev_cluster_id := mx'\<rparr>\<rparr>" and
    mx: "max_prev_cluster_id (x_memory L) \<le> mx'" and
    ids: "\<forall>i \<in> set (concat idss). (\<exists>ml \<in> set (prev_cluster_ids (x_memory L)). i \<in> set ml)
                  \<or> (max_prev_cluster_id (x_memory L) < i \<and> i \<le> mx')" and
    len: "list_all (\<lambda>g. length (fst g) = length (snd g)) (zip gcl gco)
           \<longrightarrow> map length idss = map (length \<circ> fst) (zip gcl gco)"
    unfolding mem by blast
  have "map length idss = map length gcl"
    using len zip_same_lengths [OF gf(4)] by simp
  then have "length (concat idss) = length (concat gcl)"
    by (simp add: length_concat)
  then have lci: "length (concat idss) = length cl"
    by (simp add: gf(1,2))
  have lk: "linked = map (nth (concat idss)) (np_argsort key)"
    using np_take_Inr [OF tk] by simp
  have ll: "length linked = length cl" by (simp add: lk gf(1))
  have perm: "\<forall>k < length cl. linked ! (np_argsort cl ! k) = concat idss ! k"
  proof (intro allI impI)
    fix k assume k: "k < length cl"
    have d: "distinct key" and st: "set key = {0..<length key}" and lkey: "length key = length cl"
      by (simp_all add: gf(1) argsort_distinct argsort_set)
    have "key ! k < length key" using k lkey st by (metis atLeastLessThan_iff nth_mem)
    then have "linked ! (key ! k) = concat idss ! (np_argsort key ! (key ! k))"
      by (simp add: lk)
    also have "\<dots> = concat idss ! k"
      using argsort_inverse [OF d st] k lkey by simp
    finally show "linked ! (np_argsort cl ! k) = concat idss ! k" by (simp add: gf(1))
  qed
  have sub: "\<forall>i \<in> set linked. (\<exists>ml \<in> set (prev_cluster_ids (x_memory L)). i \<in> set ml)
                  \<or> (max_prev_cluster_id (x_memory L) < i \<and> i \<le> mx')"
    using np_take_set [OF tk] ids by blast
  show ?thesis
    using mc g lc L' mx sub lci ll perm gf(1) by blast
qed

lemma update_id_empty_facts:
  assumes "update_id_empty cl L = (linked, L')"
  shows "linked = map (\<lambda>c. c + max_prev_cluster_id (x_memory L)) cl"
    and "cl = [] \<Longrightarrow> L' = L"
    and "cl \<noteq> [] \<Longrightarrow> L' = L\<lparr>x_memory := (x_memory L)\<lparr>max_prev_cluster_id := Max (set linked)\<rparr>\<rparr>"
  using assms by (auto simp: update_id_empty_def Let_def)

lemma ids_ok_mono: "ids_ok m ids \<Longrightarrow> m \<le> m' \<Longrightarrow> ids_ok m' ids"
  by (auto simp: ids_ok_def list_all_iff)

lemma link_ids_facts:
  assumes inv: "linker_inv L" and lab: "list_all (\<lambda>c. 1 \<le> c) cl"
    and len: "cl \<noteq> [] \<longrightarrow> length cl = length cs"
    and run: "link_ids cl cs L = Inr (linked, L')"
  shows "\<exists>t mx'. L' = L\<lparr>nn_tree := t, x_memory := (x_memory L)\<lparr>max_prev_cluster_id := mx'\<rparr>\<rparr>
           \<and> max_prev_cluster_id (x_memory L) \<le> mx'
           \<and> ids_ok mx' linked \<and> length linked = length cl"
proof -
  let ?m = "max_prev_cluster_id (x_memory L)"
  have m0: "0 \<le> ?m" using inv by (simp add: linker_inv_def)
  have mem: "\<forall>ml \<in> set (prev_cluster_ids (x_memory L)). \<forall>i \<in> set ml. 0 < i \<and> i \<le> ?m"
    using inv by (auto simp: linker_inv_def ids_ok_def list_all_iff)
  consider (empty) "update_id_empty cl L = (linked, L')"
    | (normal) "cl \<noteq> []" "update_id cl cs L = Inr (linked, L')"
    using run by (auto simp: link_ids_def split: if_splits sum.splits)
  then show ?thesis
  proof cases
    case empty
    note f = update_id_empty_facts [OF empty]
    show ?thesis
    proof (cases "cl = []")
      case True
      then have "L' = L" and "linked = []" using f by simp_all
      then show ?thesis
        using True by (auto simp: ids_ok_def intro!: exI [of _ "nn_tree L"] exI [of _ ?m])
    next
      case False
      let ?M = "Max (set linked)"
      have ne: "linked \<noteq> []" using False f(1) by simp
      have pos: "\<forall>i \<in> set linked. ?m < i"
        using lab m0 by (auto simp: f(1) list_all_iff)
      have le: "\<forall>i \<in> set linked. i \<le> ?M" by simp
      have "?M \<in> set linked" using ne by (simp add: Max_in)
      then have "?m \<le> ?M" using pos by fastforce
      moreover have "ids_ok ?M linked"
        using pos le m0 by (auto simp: ids_ok_def list_all_iff)
      moreover have "L' = L\<lparr>nn_tree := nn_tree L, x_memory := (x_memory L)\<lparr>max_prev_cluster_id := ?M\<rparr>\<rparr>"
        using f(3) [OF False] by simp
      moreover have "length linked = length cl" by (simp add: f(1))
      ultimately show ?thesis by blast
    qed
  next
    case normal
    then have "length cl = length cs" using len by simp
    from update_id_facts [OF normal(2) this] obtain mc mx' where
      L': "L' = (update_tree mc L)\<lparr>x_memory := (x_memory L)\<lparr>max_prev_cluster_id := mx'\<rparr>\<rparr>" and
      mx: "?m \<le> mx'" and
      ids: "\<forall>i \<in> set linked. (\<exists>ml \<in> set (prev_cluster_ids (x_memory L)). i \<in> set ml)
                  \<or> (?m < i \<and> i \<le> mx')" and
      ll: "length linked = length cl"
      by blast
    have "ids_ok mx' linked"
      unfolding ids_ok_def list_all_iff
    proof
      fix i assume "i \<in> set linked"
      then have "(\<exists>ml \<in> set (prev_cluster_ids (x_memory L)). i \<in> set ml) \<or> (?m < i \<and> i \<le> mx')"
        using ids by blast
      then show "0 < i \<and> i \<le> mx'" using mem mx m0 by fastforce
    qed
    moreover have "L' = L\<lparr>nn_tree := Some (KDTree mc), x_memory := (x_memory L)\<lparr>max_prev_cluster_id := mx'\<rparr>\<rparr>"
      by (simp add: L' update_tree_def)
    ultimately show ?thesis using mx ll by blast
  qed
qed

section \<open>One link call keeps the invariant\<close>

lemma link_Inr:
  assumes "link x L = Inr L''"
  obtains cl cs nan linked L' m ev where
    "clustering L x = Inr (cl, cs, nan)" and "link_ids cl cs L = Inr (linked, L')"
    and "update cs linked (x_memory L') = Inr m" and "assign_rows nan linked = Inr ev"
    and "L'' = L'\<lparr>x_memory := m, event_ids := ev\<rparr>"
  using assms by (auto simp: link_def split: sum.splits prod.splits)

lemma clustering_summary:
  assumes "linker_inv L" and "clustering L x = Inr (cl, cs, nan)"
  shows "list_all (\<lambda>c. 1 \<le> c) cl" and "cl \<noteq> [] \<longrightarrow> length cl = length cs"
    and "length cl = length (filter Not nan)"
proof -
  show "list_all (\<lambda>c. 1 \<le> c) cl"
  proof (cases "np_size x = 0")
    case True
    then show ?thesis using assms(2) by (simp add: clustering_empty)
  next
    case False
    then show ?thesis using clustering_facts(1) [OF assms] by simp
  qed
  show "cl \<noteq> [] \<longrightarrow> length cl = length cs"
  proof (cases "np_size x = 0")
    case True
    then show ?thesis using assms(2) by (simp add: clustering_empty)
  next
    case False
    then show ?thesis using clustering_facts(2) [OF assms] by simp
  qed
  show "length cl = length (filter Not nan)"
  proof (cases "np_size x = 0")
    case True
    then show ?thesis using assms(2) by (simp add: clustering_empty)
  next
    case False
    then show ?thesis using clustering_facts(3) [OF assms] by simp
  qed
qed

lemma fill_rows_set: "set (fill_rows ms vs) \<subseteq> insert (-1) (set vs)"
  by (induction ms vs rule: fill_rows.induct) auto

lemma fill_rows_length [simp]: "length (fill_rows ms vs) = length ms"
  by (induction ms vs rule: fill_rows.induct) auto

lemma assign_rows_exact:
  "length vs = length (filter Not ms) \<Longrightarrow> assign_rows ms vs = Inr (fill_rows ms vs)"
  by (simp add: assign_rows_def)

lemma update_facts:
  assumes "update cs ids m = Inr m'"
  shows "n_timepoints m' = n_timepoints m" and "max_prev_cluster_id m' = max_prev_cluster_id m"
    and "set (prev_cluster_ids m') \<subseteq> insert ids (set (prev_cluster_ids m))"
    and "length (coordinates m) = length (prev_cluster_ids m) \<Longrightarrow>
         length (coordinates m') = length (prev_cluster_ids m')"
    and "n_timepoints m < 0 \<or> int (length (prev_cluster_ids m)) \<le> n_timepoints m \<Longrightarrow>
         length (coordinates m) = length (prev_cluster_ids m) \<Longrightarrow>
         n_timepoints m' < 0 \<or> int (length (prev_cluster_ids m')) \<le> n_timepoints m'"
    and "prev_cluster_ids m' \<noteq> []"
    and "last (prev_cluster_ids m') = ids" and "last (coordinates m') = cs"
  using assms
  by (auto simp: update_def split: if_splits dest: list.set_sel(2))

lemma link_step:
  assumes inv: "linker_inv L" and run: "link x L = Inr L''"
  shows "linker_inv L''"
    and "max_prev_cluster_id (x_memory L) \<le> max_prev_cluster_id (x_memory L'')"
    and "\<forall>e \<in> set (event_ids L''). e = -1 \<or> (0 < e \<and> e \<le> max_prev_cluster_id (x_memory L''))"
proof -
  from run obtain cl cs nan linked L' m ev where
    c: "clustering L x = Inr (cl, cs, nan)" and li: "link_ids cl cs L = Inr (linked, L')"
    and u: "update cs linked (x_memory L') = Inr m" and a: "assign_rows nan linked = Inr ev"
    and L'': "L'' = L'\<lparr>x_memory := m, event_ids := ev\<rparr>"
    by (rule link_Inr)
  note cf = clustering_summary [OF inv c]
  from link_ids_facts [OF inv cf(1,2) li] obtain t mx' where
    L': "L' = L\<lparr>nn_tree := t, x_memory := (x_memory L)\<lparr>max_prev_cluster_id := mx'\<rparr>\<rparr>"
    and mx: "max_prev_cluster_id (x_memory L) \<le> mx'"
    and ok: "ids_ok mx' linked" and ll: "length linked = length cl"
    by blast
  note uf = update_facts [OF u]
  have mm: "max_prev_cluster_id m = mx'" using uf(2) by (simp add: L')
  show "max_prev_cluster_id (x_memory L) \<le> max_prev_cluster_id (x_memory L'')"
    using mx mm by (simp add: L'')
  have ev: "ev = fill_rows nan linked"
    using a assign_rows_exact [of linked nan] ll cf(3) by simp
  show "\<forall>e \<in> set (event_ids L''). e = -1 \<or> (0 < e \<and> e \<le> max_prev_cluster_id (x_memory L''))"
    using fill_rows_set [of nan linked] ok mm
    by (auto simp: L'' ev ids_ok_def list_all_iff)
  have old: "list_all (ids_ok mx') (prev_cluster_ids (x_memory L))"
    using inv mx by (auto simp: linker_inv_def list_all_iff intro: ids_ok_mono)
  have "list_all (ids_ok mx') (prev_cluster_ids m)"
    using uf(3) old ok by (auto simp: L' list_all_iff)
  moreover have "0 \<le> mx'" using inv mx by (simp add: linker_inv_def)
  moreover have "length (coordinates m) = length (prev_cluster_ids m)"
    using uf(4) inv by (simp add: L' linker_inv_def)
  moreover have "n_timepoints m < 0 \<or> int (length (prev_cluster_ids m)) \<le> n_timepoints m"
    using uf(5) inv by (simp add: L' linker_inv_def)
  ultimately show "linker_inv L''"
    using inv mm by (simp add: linker_inv_def L'' L')
qed

lemma reachable_inv: "reachable sk L \<Longrightarrow> linker_inv L"
  by (induction rule: reachable.induct) (auto intro: init_inv link_step(1))

section \<open>What link does not touch\<close>

lemma np_unique_empty: "(np_unique xs = []) = (xs = [])"
  by (simp add: np_unique_def)

lemma prev_cluster_labels_nth:
  assumes "prev_cluster_labels ml t cc = Inr nb"
  shows "nb = map (\<lambda>p. ml ! snd (kd_nearest (tree_data t) p)) cc"
  using np_take_Inr [OF assms [unfolded prev_cluster_labels_def]]
  by (simp add: kdtree_query_def)

lemma link_next_cluster_frame:
  "link_next_cluster (L\<lparr>max_prev_event_id := v\<rparr>) cl cc =
     map_sum id (\<lambda>(ids, L'). (ids, L'\<lparr>max_prev_event_id := v\<rparr>)) (link_next_cluster L cl cc)"
  by (simp add: link_next_cluster_def split: sum.splits option.splits prod.splits)

lemma link_clusters_frame:
  "link_clusters gs (L\<lparr>max_prev_event_id := v\<rparr>) =
     map_sum id (\<lambda>(ids, L'). (ids, L'\<lparr>max_prev_event_id := v\<rparr>)) (link_clusters gs L)"
proof (induction gs arbitrary: L)
  case Nil
  then show ?case by simp
next
  case (Cons g gs)
  obtain c cc where g: "g = (c, cc)" by (cases g)
  show ?case
    by (simp add: g link_next_cluster_frame Cons.IH split: sum.splits prod.splits)
qed

lemma update_id_frame:
  "update_id cl cs (L\<lparr>max_prev_event_id := v\<rparr>) =
     map_sum id (\<lambda>(ids, L'). (ids, L'\<lparr>max_prev_event_id := v\<rparr>)) (update_id cl cs L)"
proof -
  have u: "update_tree mc (L\<lparr>max_prev_event_id := v\<rparr>) = (update_tree mc L)\<lparr>max_prev_event_id := v\<rparr>" for mc
    by (simp add: update_tree_def)
  show ?thesis
    by (simp add: update_id_def u link_clusters_frame split: sum.splits prod.splits)
qed

lemma link_ids_frame:
  "link_ids cl cs (L\<lparr>max_prev_event_id := v\<rparr>) =
     map_sum id (\<lambda>(ids, L'). (ids, L'\<lparr>max_prev_event_id := v\<rparr>)) (link_ids cl cs L)"
  by (simp add: link_ids_def update_id_frame update_id_empty_def Let_def split: sum.splits)

lemma link_frame:
  "link x (L\<lparr>max_prev_event_id := v\<rparr>) =
     map_sum id (\<lambda>L'. L'\<lparr>max_prev_event_id := v\<rparr>) (link x L)"
  by (simp add: link_def clustering_def link_ids_frame Let_def split: sum.splits prod.splits)

section \<open>Rows and event ids\<close>

lemma fill_rows_select:
  "length vs = length (filter Not ms) \<Longrightarrow> select_rows (fill_rows ms vs) (map Not ms) = vs"
  by (induction ms vs rule: fill_rows.induct) (auto simp: select_rows_def)

lemma fill_rows_noise:
  "length vs = length (filter Not ms) \<Longrightarrow> list_all (\<lambda>v. v \<noteq> -1) vs \<Longrightarrow> i < length ms \<Longrightarrow>
   (fill_rows ms vs ! i = -1) = ms ! i"
proof (induction ms vs arbitrary: i rule: fill_rows.induct)
  case (1 vs)
  then show ?case by simp
next
  case (2 ms vs)
  then show ?case by (cases i) auto
next
  case (3 ms)
  then show ?case by simp
next
  case (4 ms v vs)
  then show ?case by (cases i) auto
qed

lemma np_size_zero_points:
  "np_size x = 0 \<Longrightarrow> list_all (\<lambda>p. p \<noteq> []) x \<Longrightarrow> x = []"
  by (cases x) (auto simp: np_size_def)

lemma update_id_groups:
  assumes "update_id cl cs L = Inr (linked, L')" and "length cl = length cs"
  shows "\<exists>mc gcl gco idss.
           group_by_clusterid cl cs = Inr (np_argsort cl, gcl, gco)
         \<and> concat gcl = map (nth cl) (np_argsort cl)
         \<and> concat gco = map (nth cs) (np_argsort cl)
         \<and> link_clusters (zip gcl gco) (update_tree mc L) = Inr (idss, L')
         \<and> map length idss = map length gcl
         \<and> (\<forall>k < length cl. linked ! (np_argsort cl ! k) = concat idss ! k)"
proof -
  from update_id_facts [OF assms] obtain mc gcl gco idss where
    g: "group_by_clusterid cl cs = Inr (np_argsort cl, gcl, gco)" and
    lc: "link_clusters (zip gcl gco) (update_tree mc L) = Inr (idss, L')" and
    perm: "\<forall>k < length cl. linked ! (np_argsort cl ! k) = concat idss ! k"
    by blast
  note gf = group_by_clusterid_facts [OF g assms(2)]
  from link_clusters_facts [OF lc] have
    "list_all (\<lambda>g. length (fst g) = length (snd g)) (zip gcl gco)
       \<longrightarrow> map length idss = map (length \<circ> fst) (zip gcl gco)"
    by blast
  then have "map length idss = map length gcl"
    using zip_same_lengths [OF gf(4)] by simp
  then show ?thesis using g lc perm gf(2,3) by blast
qed

section \<open>Frames without points\<close>

lemma link_empty_frame:
  assumes inv: "linker_inv L" and n: "0 < n_timepoints (x_memory L)"
  shows "\<exists>L'. link [] L = Inr L' \<and> linker_inv L'
           \<and> n_timepoints (x_memory L') = n_timepoints (x_memory L)
           \<and> max_prev_cluster_id (x_memory L') = max_prev_cluster_id (x_memory L)
           \<and> clustering_function L' = clustering_function L
           \<and> prev_cluster_ids (x_memory L') \<noteq> []
           \<and> (\<forall>j. tail_empty j (prev_cluster_ids (x_memory L))
                  \<longrightarrow> tail_empty (Suc j) (prev_cluster_ids (x_memory L')))"
proof -
  let ?m = "x_memory L"
  let ?ids = "prev_cluster_ids ?m"
  have len: "length (coordinates ?m) = length ?ids"
    using inv by (simp add: linker_inv_def)
  have ne: "int (length ?ids) = n_timepoints ?m \<Longrightarrow> coordinates ?m \<noteq> [] \<and> ?ids \<noteq> []"
    using n len by auto
  define ids' where "ids' = (if int (length ?ids) = n_timepoints ?m then tl ?ids else ?ids) @ [[]]"
  define cs' where "cs' = (if int (length ?ids) = n_timepoints ?m then tl (coordinates ?m)
                           else coordinates ?m) @ [[]]"
  define L' where "L' = L\<lparr>x_memory := ?m\<lparr>coordinates := cs', prev_cluster_ids := ids'\<rparr>,
                         event_ids := []\<rparr>"
  have run: "link [] L = Inr L'"
    using ne len
    by (auto simp: link_def clustering_def np_size_def link_ids_def update_id_empty_def
        update_def assign_rows_def L'_def ids'_def cs'_def)
  have inv': "linker_inv L'" by (rule link_step(1) [OF inv run])
  have te: "tail_empty (Suc j) ids'" if t: "tail_empty j ?ids" for j
    unfolding tail_empty_def
  proof (intro allI impI)
    fix i assume i: "i < length ids'" and b: "length ids' \<le> i + Suc j"
    show "ids' ! i = []"
    proof (cases "int (length ?ids) = n_timepoints ?m")
      case True
      then have ids: "ids' = tl ?ids @ [[]]" and nonempty: "?ids \<noteq> []"
        using ne by (simp_all add: ids'_def)
      then have l: "length ids' = length ?ids" by simp
      show ?thesis
      proof (cases "i = length ?ids - 1")
        case True
        then show ?thesis using ids nonempty by (simp add: nth_append)
      next
        case False
        then have lt: "Suc i < length ?ids" using i l by simp
        then have "i < length (tl ?ids)" by simp
        then have "ids' ! i = ?ids ! Suc i" using ids by (simp add: nth_append nth_tl)
        moreover have "length ?ids \<le> Suc i + j" using b l by simp
        ultimately show ?thesis using t lt by (simp add: tail_empty_def)
      qed
    next
      case False
      then have ids: "ids' = ?ids @ [[]]" by (simp add: ids'_def)
      show ?thesis
      proof (cases "i = length ?ids")
        case True
        then show ?thesis using ids by simp
      next
        case False
        then have lt: "i < length ?ids" using i ids by simp
        then have "ids' ! i = ?ids ! i" using ids by (simp add: nth_append)
        moreover have "length ?ids \<le> i + j" using b ids by simp
        ultimately show ?thesis using t lt by (simp add: tail_empty_def)
      qed
    qed
  qed
  have "prev_cluster_ids (x_memory L') = ids'" by (simp add: L'_def)
  moreover have "ids' \<noteq> []" by (simp add: ids'_def)
  ultimately show ?thesis
    using run inv' te by (auto simp: L'_def)
qed

lemma link_all_empty_frames:
  assumes "linker_inv L" and "0 < n_timepoints (x_memory L)"
    and "tail_empty j (prev_cluster_ids (x_memory L))"
  shows "\<exists>Lk. link_all (replicate k []) L = Inr Lk \<and> linker_inv Lk
           \<and> n_timepoints (x_memory Lk) = n_timepoints (x_memory L)
           \<and> max_prev_cluster_id (x_memory Lk) = max_prev_cluster_id (x_memory L)
           \<and> clustering_function Lk = clustering_function L
           \<and> (0 < k \<longrightarrow> prev_cluster_ids (x_memory Lk) \<noteq> [])
           \<and> tail_empty (j + k) (prev_cluster_ids (x_memory Lk))"
  using assms
proof (induction k arbitrary: L j)
  case 0
  then show ?case by simp
next
  case (Suc k)
  from link_empty_frame [OF Suc.prems(1,2)] Suc.prems(3) obtain L1 where
    r: "link [] L = Inr L1" and i: "linker_inv L1"
    and n: "n_timepoints (x_memory L1) = n_timepoints (x_memory L)"
    and m: "max_prev_cluster_id (x_memory L1) = max_prev_cluster_id (x_memory L)"
    and c: "clustering_function L1 = clustering_function L"
    and ne: "prev_cluster_ids (x_memory L1) \<noteq> []"
    and t: "tail_empty (Suc j) (prev_cluster_ids (x_memory L1))"
    by blast
  have n1: "0 < n_timepoints (x_memory L1)" using n Suc.prems(2) by simp
  from Suc.IH [OF i n1 t] obtain Lk where
    k: "link_all (replicate k []) L1 = Inr Lk" "linker_inv Lk"
       "n_timepoints (x_memory Lk) = n_timepoints (x_memory L1)"
       "max_prev_cluster_id (x_memory Lk) = max_prev_cluster_id (x_memory L1)"
       "clustering_function Lk = clustering_function L1"
       "0 < k \<longrightarrow> prev_cluster_ids (x_memory Lk) \<noteq> []"
       "tail_empty (Suc j + k) (prev_cluster_ids (x_memory Lk))"
    by blast
  have "prev_cluster_ids (x_memory Lk) \<noteq> []"
    using k(1,6) ne by (cases k) auto
  then show ?case using r k n m c by (auto intro!: exI [of _ Lk])
qed

section \<open>The claims\<close>

lemma init0:
  "Linker_init sk_single (PInt 1) PNone (PInt 1) (PInt 1) (PStr ''dbscan'') (PInt 1) (PInt 1) (PInt 1)
     = Inr linker0"
  by (simp add: Linker_init_def validate_input_def linker0_def)

lemma link0: "link [[0], [1]] linker0 = Inr linker1"
  by (simp add: link_def clustering_def np_size_def linker0_def x_dbscan_def sk_single_def
      relabel_def List.map_filter_simps select_rows_def link_ids_def update_id_empty_def
      update_def assign_rows_def linker1_def)

lemma reachable0: "reachable sk_single linker0"
  by (rule reachable.init [OF init0])

lemma reachable1: "reachable sk_single linker1"
  by (rule reachable.step [OF reachable0 link0])

text \<open>
  C3. On a Linker that construction and any sequence of link calls has produced, one more
  link call does not lower the counter of Memory (\<^verbatim>\<open>memory.max_prev_cluster_id\<close>, which
  the specification calls \<^verbatim>\<open>max_prev_event_id\<close>), and every event id it emits is the
  noise sentinel -1 or a positive integer not above the counter after the call.
\<close>

theorem link_counter_monotone_ids_bounded:
  assumes "reachable sk L" and "link x L = Inr L'"
  shows "max_prev_cluster_id (x_memory L) \<le> max_prev_cluster_id (x_memory L')
       \<and> (\<forall>e \<in> set (event_ids L').
             e = -1 \<or> (0 < e \<and> e \<le> max_prev_cluster_id (x_memory L')))"
  using link_step(2,3) [OF reachable_inv [OF assms(1)] assms(2)] by simp

theorem link_counter_monotone_ids_bounded_witness:
  "reachable sk_single linker0 \<and> link [[0], [1]] linker0 = Inr linker1
   \<and> max_prev_cluster_id (x_memory linker0) \<le> max_prev_cluster_id (x_memory linker1)
   \<and> list_all (\<lambda>e. e = -1 \<or> (0 < e \<and> e \<le> max_prev_cluster_id (x_memory linker1)))
        (event_ids linker1)"
  using link_counter_monotone_ids_bounded [OF reachable0 link0] reachable0 link0
  by (simp add: list_all_iff)

text \<open>
  C4. Construction with a callable as \<^verbatim>\<open>clusteringMethod\<close> always raises ValueError:
  \<^verbatim>\<open>_validate_input\<close> demands a string before \<^verbatim>\<open>__init__\<close> looks for a callable.
\<close>

theorem Linker_init_callable_raises:
  "Linker_init sk eps ep minClSz minSamples (PCallable f) pt nPrev nJobs = Inl ValueError"
  by (simp add: Linker_init_def validate_input_def)

text \<open>
  C8. Construction with the float 0.2 as \<^verbatim>\<open>epsPrev\<close> raises ValueError, whatever the other
  parameters are: \<^verbatim>\<open>_validate_input\<close> accepts only an int or None there.
\<close>

theorem Linker_init_epsPrev_float_raises:
  "Linker_init sk eps (PFloat (2 / 10)) minClSz minSamples cm pt nPrev nJobs = Inl ValueError"
  by (simp add: Linker_init_def validate_input_def)

text \<open>
  C5. A \<^verbatim>\<open>dims\<close> string with an axis name outside T, X, Y, Z passes the checks of
  \<^verbatim>\<open>ImageTracker.track\<close>: with "TQY" and an array of three axes no error is raised and the
  frames along axis 0 are tracked.
\<close>

theorem track_img_unknown_axis_accepted:
  "track_img L \<lparr>nd_shape = [a, b, c], nd_at = f\<rparr> ''TQY''
     = track_frames_img L (frames_of (moveaxis_front \<lparr>nd_shape = [a, b, c], nd_at = f\<rparr> 0))"
  by (simp add: track_img_def track_dims_def upper_char_def list_index_def)

lemma init0_thr0:
  "Linker_init sk_single (PInt 1) PNone (PInt 1) (PInt 1) (PStr ''dbscan'') (PInt 0) (PInt 1) (PInt 1)
     = Inr linker0_thr0"
  by (simp add: Linker_init_def validate_input_def linker0_def linker0_thr0_def)

lemma link0_thr0: "link [[0], [1]] linker0_thr0 = Inr linker1_thr0"
  by (simp add: link_def clustering_def np_size_def linker0_def x_dbscan_def sk_single_def
      relabel_def List.map_filter_simps select_rows_def link_ids_def update_id_empty_def
      update_def assign_rows_def linker1_def linker0_thr0_def linker1_thr0_def)

lemmas eval_defs = link_def clustering_def np_size_def x_dbscan_def sk_single_def relabel_def
      List.map_filter_simps select_rows_def link_ids_def update_id_empty_def update_def assign_rows_def
    all_cluster_ids_def update_id_def all_coordinates_def group_by_clusterid_def np_argsort_def np_take_def
     group_data_def np_unique_index_def np_unique_def np_split_def update_tree_def link_next_cluster_def
     brute_force_linking_def kdtree_query_def kd_nearest_def dist_euclid_def within_eps_def
     prev_cluster_labels_def prev_cluster_labels_eps_def

text \<open>
  C1, as amended. When the memory labels are there, the kd-tree is built, the nearest
  memory labels can be read and \<^verbatim>\<open>epsPrev\<close> is a number, linking one cluster returns. The
  count that decides is \<^verbatim>\<open>prev_cluster_labels_eps.size\<close>: the number of points of the
  cluster whose nearest memory row lies within \<^verbatim>\<open>epsPrev\<close> (a memory row that is nearest
  to several points counts once for each of them). If that count is below the propagation
  threshold, or is zero, the counter of Memory goes up by one and every point of the
  cluster gets the new id; otherwise every point gets the memory label of its own nearest
  memory row and the counter stays.
\<close>

theorem link_next_cluster_mint_or_inherit:
  assumes "all_cluster_ids (x_memory L) = Inr ml" and "nn_tree L = Some t"
    and "prev_cluster_labels ml t cc = Inr nb" and "eps_num (epsPrev L) = Inr e"
  shows "link_next_cluster L cluster cc =
           (if int (length (prev_cluster_labels_eps e nb t cc)) < propagation_threshold L
               \<or> prev_cluster_labels_eps e nb t cc = []
            then Inr (replicate (length cluster) (max_prev_cluster_id (x_memory L) + 1),
                      L\<lparr>x_memory := (x_memory L)\<lparr>max_prev_cluster_id :=
                                       max_prev_cluster_id (x_memory L) + 1\<rparr>\<rparr>)
            else Inr (nb, L))
         \<and> nb = map (\<lambda>p. ml ! snd (kd_nearest (tree_data t) p)) cc"
proof -
  have "brute_force_linking cluster cc ml t (propagation_threshold L) (epsPrev L)
          (max_prev_cluster_id (x_memory L)) =
        (if int (length (prev_cluster_labels_eps e nb t cc)) < propagation_threshold L
               \<or> prev_cluster_labels_eps e nb t cc = []
         then Inr (replicate (length cluster) (max_prev_cluster_id (x_memory L) + 1),
                   max_prev_cluster_id (x_memory L) + 1)
         else Inr (nb, max_prev_cluster_id (x_memory L)))"
    using assms(3,4) by (simp add: brute_force_linking_def np_unique_empty Let_def)
  then have "link_next_cluster L cluster cc =
           (if int (length (prev_cluster_labels_eps e nb t cc)) < propagation_threshold L
               \<or> prev_cluster_labels_eps e nb t cc = []
            then Inr (replicate (length cluster) (max_prev_cluster_id (x_memory L) + 1),
                      L\<lparr>x_memory := (x_memory L)\<lparr>max_prev_cluster_id :=
                                       max_prev_cluster_id (x_memory L) + 1\<rparr>\<rparr>)
            else Inr (nb, L))"
    using assms(1,2) by (simp add: link_next_cluster_def)
  then show ?thesis using prev_cluster_labels_nth [OF assms(3)] by blast
qed

theorem link_next_cluster_mint_or_inherit_witness:
  "all_cluster_ids (x_memory (update_tree [[0], [1]] linker1)) = Inr [1, 1]
   \<and> nn_tree (update_tree [[0], [1]] linker1) = Some (KDTree [[0], [1]])
   \<and> prev_cluster_labels [1, 1] (KDTree [[0], [1]]) [[0], [1]] = Inr [1, 1]
   \<and> eps_num (epsPrev (update_tree [[0], [1]] linker1)) = Inr 1
   \<and> link_next_cluster (update_tree [[0], [1]] linker1) [1, 1] [[0], [1]]
       = Inr ([1, 1], update_tree [[0], [1]] linker1)"
proof -
  let ?L = "update_tree [[0], [1]] linker1"
  have a: "all_cluster_ids (x_memory ?L) = Inr [1, 1]"
    by (simp add: update_tree_def linker1_def all_cluster_ids_def)
  have b: "nn_tree ?L = Some (KDTree [[0], [1]])"
    by (simp add: update_tree_def)
  have c: "prev_cluster_labels [1, 1] (KDTree [[0], [1]]) [[0], [1]] = Inr [1, 1]"
    by (simp add: eval_defs)
  have d: "eps_num (epsPrev ?L) = Inr 1"
    by (simp add: update_tree_def linker1_def)
  have e: "prev_cluster_labels_eps 1 [1, 1] (KDTree [[0], [1]]) [[0], [1]] = [1, 1]"
    by (simp add: eval_defs)
  have f: "propagation_threshold ?L = 1"
    by (simp add: update_tree_def linker1_def)
  show ?thesis
    using link_next_cluster_mint_or_inherit [OF a b c d, of "[1, 1]"] a b c d
    by (simp add: e f)
qed

lemma init0_thr2:
  "Linker_init sk_single (PInt 1) PNone (PInt 1) (PInt 1) (PStr ''dbscan'') (PInt 2) (PInt 1) (PInt 1)
     = Inr linker0_thr2"
  by (simp add: Linker_init_def validate_input_def linker0_def linker0_thr2_def)

lemma link0_thr2: "link [[0]] linker0_thr2 = Inr linker1_thr2"
  by (simp add: eval_defs linker0_def linker0_thr2_def linker1_thr2_def)

text \<open>
  C1 as stated fails in two ways. With \<^verbatim>\<open>propagationThreshold=0\<close>: after the frame of the
  points 0 and 1, the point 5 has its nearest memory row (label 1) farther than
  \<^verbatim>\<open>epsPrev\<close> = 1, so no neighbour is eligible; 0 is not below the threshold 0, yet the
  point gets the new id 2 and not the label 1 of its nearest memory row. With
  \<^verbatim>\<open>propagationThreshold=2\<close>: after the frame of the point 0, the cluster of the points 0
  and 0.2 has one memory row within \<^verbatim>\<open>epsPrev\<close> = 1, which is below the threshold 2, yet
  both points inherit the label 1 and the counter stays 1, because the source counts the
  two points of the cluster whose nearest memory row is within \<^verbatim>\<open>epsPrev\<close>.
\<close>

theorem link_threshold_zero_mints_counterexample:
  "reachable sk_single linker1_thr0
   \<and> all_cluster_ids (x_memory linker1_thr0) = Inr [1, 1]
   \<and> prev_cluster_labels [1, 1] (KDTree [[0], [1]]) [[5]] = Inr [1]
   \<and> prev_cluster_labels_eps 1 [1] (KDTree [[0], [1]]) [[5]] = []
   \<and> \<not> int (length (prev_cluster_labels_eps 1 [1] (KDTree [[0], [1]]) [[5]]))
         < propagation_threshold linker1_thr0
   \<and> map_sum id event_ids (link [[5]] linker1_thr0) = Inr [2]
   \<and> map_sum id (\<lambda>L. max_prev_cluster_id (x_memory L)) (link [[5]] linker1_thr0) = Inr 2
   \<and> reachable sk_single linker1_thr2
   \<and> all_cluster_ids (x_memory linker1_thr2) = Inr [1]
   \<and> eligible_memory_rows 1 (KDTree [[0]]) [[0], [2 / 10]] = [0]
   \<and> int (length (eligible_memory_rows 1 (KDTree [[0]]) [[0], [2 / 10]]))
         < propagation_threshold linker1_thr2
   \<and> prev_cluster_labels [1] (KDTree [[0]]) [[0], [2 / 10]] = Inr [1, 1]
   \<and> prev_cluster_labels_eps 1 [1, 1] (KDTree [[0]]) [[0], [2 / 10]] = [1, 1]
   \<and> map_sum id event_ids (link [[0], [2 / 10]] linker1_thr2) = Inr [1, 1]
   \<and> map_sum id (\<lambda>L. max_prev_cluster_id (x_memory L)) (link [[0], [2 / 10]] linker1_thr2)
       = Inr 1"
proof -
  have r: "reachable sk_single linker1_thr0"
    by (rule reachable.step [OF reachable.init [OF init0_thr0] link0_thr0])
  have a: "all_cluster_ids (x_memory linker1_thr0) = Inr [1, 1]"
    by (simp add: linker1_thr0_def linker1_def all_cluster_ids_def)
  have b: "prev_cluster_labels [1, 1] (KDTree [[0], [1]]) [[5]] = Inr [1]"
    by (simp add: eval_defs)
  have c: "prev_cluster_labels_eps 1 [1] (KDTree [[0], [1]]) [[5]] = []"
    by (simp add: eval_defs)
  have d: "propagation_threshold linker1_thr0 = 0"
    by (simp add: linker1_thr0_def)
  have e: "map_sum id event_ids (link [[5]] linker1_thr0) = Inr [2]"
    by (simp add: eval_defs linker1_thr0_def linker1_def)
  have f: "map_sum id (\<lambda>L. max_prev_cluster_id (x_memory L)) (link [[5]] linker1_thr0) = Inr 2"
    by (simp add: eval_defs linker1_thr0_def linker1_def)
  have r2: "reachable sk_single linker1_thr2"
    by (rule reachable.step [OF reachable.init [OF init0_thr2] link0_thr2])
  have a2: "all_cluster_ids (x_memory linker1_thr2) = Inr [1]"
    by (simp add: linker1_thr2_def all_cluster_ids_def)
  have g2: "eligible_memory_rows 1 (KDTree [[0]]) [[0], [2 / 10]] = [0]"
    by (simp add: eligible_memory_rows_def eval_defs)
  have d2: "propagation_threshold linker1_thr2 = 2"
    by (simp add: linker1_thr2_def linker0_thr2_def)
  have b2: "prev_cluster_labels [1] (KDTree [[0]]) [[0], [2 / 10]] = Inr [1, 1]"
    by (simp add: eval_defs)
  have c2: "prev_cluster_labels_eps 1 [1, 1] (KDTree [[0]]) [[0], [2 / 10]] = [1, 1]"
    by (simp add: eval_defs)
  have e2: "map_sum id event_ids (link [[0], [2 / 10]] linker1_thr2) = Inr [1, 1]"
    by (simp add: eval_defs linker0_def linker0_thr2_def linker1_thr2_def)
  have f2: "map_sum id (\<lambda>L. max_prev_cluster_id (x_memory L))
              (link [[0], [2 / 10]] linker1_thr2) = Inr 1"
    by (simp add: eval_defs linker0_def linker0_thr2_def linker1_thr2_def)
  show ?thesis
    using r a b c d e f r2 a2 g2 d2 b2 c2 e2 f2 by simp
qed

text \<open>
  C9. The attribute \<^verbatim>\<open>max_prev_event_id\<close> of a Linker is 0 after construction and after any
  sequence of link calls; link neither reads nor writes it (changing it changes nothing
  else in the result), and the offset that \<^verbatim>\<open>_update_id_empty\<close> adds is the counter of
  Memory, \<^verbatim>\<open>memory.max_prev_cluster_id\<close>.
\<close>

theorem max_prev_event_id_stays_zero:
  assumes "reachable sk L"
  shows "max_prev_event_id L = 0
       \<and> link x (L\<lparr>max_prev_event_id := v\<rparr>)
           = map_sum id (\<lambda>L'. L'\<lparr>max_prev_event_id := v\<rparr>) (link x L)
       \<and> fst (update_id_empty cl L) = map (\<lambda>c. c + max_prev_cluster_id (x_memory L)) cl"
  using reachable_inv [OF assms]
  by (simp add: linker_inv_def link_frame update_id_empty_def Let_def)

theorem max_prev_event_id_stays_zero_witness:
  "reachable sk_single linker1 \<and> max_prev_event_id linker1 = 0
   \<and> max_prev_cluster_id (x_memory linker1) = 1
   \<and> fst (update_id_empty [1, 2] linker1) = [2, 3]"
  using max_prev_event_id_stays_zero [OF reachable1, of _ _ "[1, 2]"] reachable1
  by (simp add: linker1_def)

lemma link1: "link [[0], [1]] linker1 = Inr linker2"
  by (simp add: eval_defs linker1_def linker2_def)

text \<open>
  C2. After a link call that returns, on a Linker produced by construction and link calls
  and for a coordinate array whose rows have at least one coordinate: the event-id vector
  is as long as the input; it holds -1 exactly at the rows that the clusterer marked as
  noise; its entries at the other rows, in the order of the input, are the linked ids, in
  step with the kept rows (both are what Memory stores last). The linked ids are the
  labels plus the counter on the first-frame or empty-memory path; on the normal path the
  label sort is undone: the id computed for the k-th row in label order is the id of the
  input row that the sort had moved to place k.
\<close>

theorem link_event_ids_aligned:
  assumes "reachable sk L" and "link x L = Inr L'" and "list_all (\<lambda>p. p \<noteq> []) x"
  shows "\<exists>cl cs nan linked L1.
           clustering L x = Inr (cl, cs, nan)
         \<and> link_ids cl cs L = Inr (linked, L1)
         \<and> length (event_ids L') = length x
         \<and> length nan = length x
         \<and> (\<forall>i < length x. (event_ids L' ! i = -1) = nan ! i)
         \<and> cs = select_rows x (map Not nan)
         \<and> select_rows (event_ids L') (map Not nan) = linked
         \<and> last (coordinates (x_memory L')) = cs
         \<and> last (prev_cluster_ids (x_memory L')) = linked
         \<and> (if prev_cluster_ids (x_memory L) = [] \<or> cl = []
                \<or> all_cluster_ids (x_memory L) = Inr []
             then linked = map (\<lambda>c. c + max_prev_cluster_id (x_memory L)) cl
             else \<exists>mc gcl gco idss.
                    group_by_clusterid cl cs = Inr (np_argsort cl, gcl, gco)
                  \<and> concat gcl = map (nth cl) (np_argsort cl)
                  \<and> concat gco = map (nth cs) (np_argsort cl)
                  \<and> link_clusters (zip gcl gco) (update_tree mc L) = Inr (idss, L1)
                  \<and> map length idss = map length gcl
                  \<and> (\<forall>k < length cl. linked ! (np_argsort cl ! k) = concat idss ! k))"
proof -
  have inv: "linker_inv L" by (rule reachable_inv [OF assms(1)])
  from assms(2) obtain cl cs nan linked L1 m ev where
    c: "clustering L x = Inr (cl, cs, nan)" and li: "link_ids cl cs L = Inr (linked, L1)"
    and u: "update cs linked (x_memory L1) = Inr m" and a: "assign_rows nan linked = Inr ev"
    and L': "L' = L1\<lparr>x_memory := m, event_ids := ev\<rparr>"
    by (rule link_Inr)
  note cf = clustering_summary [OF inv c]
  from link_ids_facts [OF inv cf(1,2) li] obtain mx' where
    ok: "ids_ok mx' linked" and ll: "length linked = length cl"
    by blast
  have ev: "ev = fill_rows nan linked"
    using a assign_rows_exact [of linked nan] ll cf(3) by simp
  have cnt: "length linked = length (filter Not nan)" using ll cf(3) by simp
  have shape: "length nan = length x \<and> cs = select_rows x (map Not nan)"
  proof (cases "np_size x = 0")
    case True
    then have "x = []" using assms(3) by (rule np_size_zero_points)
    then show ?thesis using c by (simp add: clustering_def np_size_def select_rows_def)
  next
    case False
    then show ?thesis using clustering_facts(4,5) [OF inv c] by simp
  qed
  have e1: "length (event_ids L') = length x" using shape by (simp add: L' ev)
  have pos: "list_all (\<lambda>v. v \<noteq> -1) linked"
    using ok by (auto simp: ids_ok_def list_all_iff)
  have e2: "\<forall>i < length x. (event_ids L' ! i = -1) = nan ! i"
    using fill_rows_noise [OF cnt pos] shape by (simp add: L' ev)
  have e3: "select_rows (event_ids L') (map Not nan) = linked"
    using fill_rows_select [OF cnt] by (simp add: L' ev)
  have e4: "last (coordinates (x_memory L')) = cs \<and> last (prev_cluster_ids (x_memory L')) = linked"
    using update_facts(7,8) [OF u] by (simp add: L')
  have e5: "if prev_cluster_ids (x_memory L) = [] \<or> cl = []
                \<or> all_cluster_ids (x_memory L) = Inr []
             then linked = map (\<lambda>c. c + max_prev_cluster_id (x_memory L)) cl
             else \<exists>mc gcl gco idss.
                    group_by_clusterid cl cs = Inr (np_argsort cl, gcl, gco)
                  \<and> concat gcl = map (nth cl) (np_argsort cl)
                  \<and> concat gco = map (nth cs) (np_argsort cl)
                  \<and> link_clusters (zip gcl gco) (update_tree mc L) = Inr (idss, L1)
                  \<and> map length idss = map length gcl
                  \<and> (\<forall>k < length cl. linked ! (np_argsort cl ! k) = concat idss ! k)"
  proof (cases "prev_cluster_ids (x_memory L) = [] \<or> cl = []
                \<or> all_cluster_ids (x_memory L) = Inr []")
    case True
    then have "update_id_empty cl L = (linked, L1)"
      using li by (auto simp: link_ids_def split: if_splits sum.splits)
    then show ?thesis using True update_id_empty_facts(1) by simp
  next
    case False
    then have "update_id cl cs L = Inr (linked, L1)"
      using li by (auto simp: link_ids_def split: if_splits sum.splits)
    moreover have "length cl = length cs" using False cf(2) by simp
    ultimately show ?thesis using False update_id_groups by simp
  qed
  show ?thesis using c li e1 shape e2 e3 e4 e5 by blast
qed

theorem link_event_ids_aligned_witness:
  "reachable sk_single linker1 \<and> link [[0], [1]] linker1 = Inr linker2
   \<and> list_all (\<lambda>p. p \<noteq> []) [[0], [1 :: real]]
   \<and> length (event_ids linker2) = 2
   \<and> event_ids linker2 = [1, 1]"
proof -
  have d: "list_all (\<lambda>p. p \<noteq> []) [[0], [1 :: real]]" by simp
  from link_event_ids_aligned [OF reachable1 link1 d]
  have "length (event_ids linker2) = length [[0], [1 :: real]]" by blast
  then show ?thesis using reachable1 link1 by (simp add: linker2_def linker1_def)
qed

lemma link_empty_memory:
  assumes inv: "linker_inv L" and n: "0 < n_timepoints (x_memory L)"
    and em: "prev_cluster_ids (x_memory L) = [] \<or> all_cluster_ids (x_memory L) = Inr []"
  shows "links_by_offset L x"
proof (cases "clustering L x")
  case (Inl e)
  then show ?thesis by (simp add: links_by_offset_def link_def)
next
  case (Inr r)
  obtain cl cs nan where r: "r = (cl, cs, nan)" by (cases r)
  have c: "clustering L x = Inr (cl, cs, nan)" using Inr r by simp
  note cf = clustering_summary [OF inv c]
  let ?m = "x_memory L"
  let ?linked = "map (\<lambda>c. c + max_prev_cluster_id ?m) cl"
  obtain L1 where e: "update_id_empty cl L = (?linked, L1)"
    by (simp add: update_id_empty_def Let_def)
  have li: "link_ids cl cs L = Inr (?linked, L1)"
    using em e by (auto simp: link_ids_def)
  note ef = update_id_empty_facts [OF e]
  have mem1: "coordinates (x_memory L1) = coordinates ?m"
             "prev_cluster_ids (x_memory L1) = prev_cluster_ids ?m"
             "n_timepoints (x_memory L1) = n_timepoints ?m"
    using ef(2,3) by (cases "cl = []"; simp)+
  have len: "length (coordinates ?m) = length (prev_cluster_ids ?m)"
    using inv by (simp add: linker_inv_def)
  have ne: "int (length (coordinates ?m)) = n_timepoints ?m
          \<Longrightarrow> coordinates ?m \<noteq> [] \<and> prev_cluster_ids ?m \<noteq> []"
    using n len by auto
  have "\<exists>m. update cs ?linked (x_memory L1) = Inr m"
  proof (cases "int (length (coordinates ?m)) = n_timepoints ?m")
    case True
    then show ?thesis using ne by (simp add: update_def mem1)
  next
    case False
    then show ?thesis by (simp add: update_def mem1)
  qed
  then obtain m where u: "update cs ?linked (x_memory L1) = Inr m" by blast
  have a: "assign_rows nan ?linked = Inr (fill_rows nan ?linked)"
    using cf(3) by (simp add: assign_rows_exact)
  have run: "link x L = Inr (L1\<lparr>x_memory := m, event_ids := fill_rows nan ?linked\<rparr>)"
    using c li u a by (simp add: link_def)
  have mx: "max_prev_cluster_id m = (if cl = [] then max_prev_cluster_id ?m else Max (set ?linked))"
    using update_facts(2) [OF u] ef(2,3) by (cases "cl = []") simp_all
  show ?thesis
    using c run update_facts(7) [OF u] mx by (simp add: links_by_offset_def)
qed

text \<open>
  C6. On a Linker produced by construction and link calls, with a memory depth of at least
  one frame: when Memory holds no event id (no frame yet, or only frames without kept
  points), a link call gives the kept rows their labels plus the counter of Memory and sets
  the counter to the largest new id when there is one. After as many link calls without
  points as the memory depth, every such call has returned, Memory holds no event id, the
  counter has kept its value, and the next link call again adds the counter to the labels:
  the cluster labelled 1 gets the counter plus one.
\<close>

theorem empty_memory_offset_and_drain:
  assumes "reachable sk L" and "0 < n_timepoints (x_memory L)"
  shows "(prev_cluster_ids (x_memory L) = [] \<or> all_cluster_ids (x_memory L) = Inr []
            \<longrightarrow> links_by_offset L x)
       \<and> (\<exists>Ld. link_all (replicate (nat (n_timepoints (x_memory L))) []) L = Inr Ld
              \<and> all_cluster_ids (x_memory Ld) = Inr []
              \<and> max_prev_cluster_id (x_memory Ld) = max_prev_cluster_id (x_memory L)
              \<and> links_by_offset Ld y)"
proof -
  have inv: "linker_inv L" by (rule reachable_inv [OF assms(1)])
  let ?n = "nat (n_timepoints (x_memory L))"
  have t0: "tail_empty 0 (prev_cluster_ids (x_memory L))" by (simp add: tail_empty_def)
  from link_all_empty_frames [OF inv assms(2) t0, of ?n] obtain Ld where
    run: "link_all (replicate ?n []) L = Inr Ld" and invd: "linker_inv Ld"
    and n: "n_timepoints (x_memory Ld) = n_timepoints (x_memory L)"
    and m: "max_prev_cluster_id (x_memory Ld) = max_prev_cluster_id (x_memory L)"
    and ne: "prev_cluster_ids (x_memory Ld) \<noteq> []"
    and te: "tail_empty ?n (prev_cluster_ids (x_memory Ld))"
    using assms(2) by auto
  have "int (length (prev_cluster_ids (x_memory Ld))) \<le> n_timepoints (x_memory Ld)"
    using invd n assms(2) by (simp add: linker_inv_def)
  then have "length (prev_cluster_ids (x_memory Ld)) \<le> ?n" using n by simp
  then have all: "\<forall>ids \<in> set (prev_cluster_ids (x_memory Ld)). ids = []"
    using te by (auto simp: tail_empty_def in_set_conv_nth)
  then have "concat (prev_cluster_ids (x_memory Ld)) = []" by simp
  then have ac: "all_cluster_ids (x_memory Ld) = Inr []"
    using ne all by (cases "prev_cluster_ids (x_memory Ld)") (auto simp: all_cluster_ids_def)
  have nd: "0 < n_timepoints (x_memory Ld)" using n assms(2) by simp
  have "links_by_offset Ld y"
    using link_empty_memory [OF invd nd] ac by simp
  then show ?thesis
    using link_empty_memory [OF inv assms(2)] run ac m by blast
qed

lemma drain1: "link_all (replicate (nat 1) []) linker1 = Inr linker1_drained"
  by (simp add: eval_defs linker1_def linker1_drained_def)

lemma link_after_drain:
  "map_sum id event_ids (link [[0], [1]] linker1_drained) = Inr [2, 2]"
  by (simp add: eval_defs linker1_def linker1_drained_def)

theorem empty_memory_offset_and_drain_witness:
  "reachable sk_single linker1 \<and> 0 < n_timepoints (x_memory linker1)
   \<and> link_all (replicate (nat (n_timepoints (x_memory linker1))) []) linker1 = Inr linker1_drained
   \<and> all_cluster_ids (x_memory linker1_drained) = Inr []
   \<and> max_prev_cluster_id (x_memory linker1_drained) = 1
   \<and> links_by_offset linker1_drained [[0], [1]]
   \<and> map_sum id event_ids (link [[0], [1]] linker1_drained) = Inr [2, 2]"
proof -
  have n: "0 < n_timepoints (x_memory linker1)" by (simp add: linker1_def)
  have d: "link_all (replicate (nat (n_timepoints (x_memory linker1))) []) linker1
             = Inr linker1_drained"
    using drain1 by (simp add: linker1_def)
  from empty_memory_offset_and_drain [OF reachable1 n, of _ "[[0], [1]]"] d
  have "all_cluster_ids (x_memory linker1_drained) = Inr []
        \<and> links_by_offset linker1_drained [[0], [1]]"
    by auto
  then show ?thesis
    using reachable1 n d link_after_drain by (simp add: linker1_drained_def linker1_def)
qed

section \<open>The tabular tracker, frame by frame\<close>













section \<open>The raster tracker and 16-bit words\<close>






lemma put16_at:
  "nd16_at (put16 out pv) p = (if p = fst pv then word_of_int (snd pv) else nd16_at out p)"
  by (simp add: put16_def)

lemma put16_shape: "nd16_shape (put16 out pv) = nd16_shape out"
  by (simp add: put16_def)

lemma foldl_put16_shape [simp]: "nd16_shape (foldl put16 out ps) = nd16_shape out"
  by (induction ps arbitrary: out) (simp_all add: put16_shape)


lemma foldl_put16_other:
  "p \<notin> fst ` set ps \<Longrightarrow> nd16_at (foldl put16 out ps) p = nd16_at out p"
  by (induction ps rule: rev_induct) (auto simp: put16_at)








lemma frame_ex_out:
  "map_sum id (\<lambda>out. unat (nd16_at out [0])) (coordinates_to_image frame_ex [[0], [1]] [65537, - 1])
     = Inr 1"
  by (simp add: coordinates_to_image_def frame_ex_def Let_def select_rows_def in_shape_def
      zeros16_def put16_def)





end
